theory Spec2Isabelle
  imports Main "HOL-Library.Code_Target_Nat"
begin

section \<open>The element type and the exceptions\<close>

text \<open>
  \<^verbatim>\<open>vector.h\<close> defines two class templates over an element type \<open>T\<close>: \<open>RawMemory<T>\<close>, which
  owns uninitialised storage, and \<open>Vector<T>\<close>, which keeps the first \<open>size_\<close> slots of a
  \<open>RawMemory<T>\<close> constructed. The element type is a parameter of the source, so it is a
  parameter of the model: a record of the special member functions of \<open>T\<close> that the templates
  call, and of the two type traits they inspect with \<open>if constexpr\<close>.

  What ends a call other than by returning is a value of \<open>failure\<close>:
  \<^item> \<open>bad_alloc\<close>: \<open>operator new\<close> threw;
  \<^item> \<open>thrown n\<close>: a member function of \<open>T\<close> threw (the number identifies the exception);
  \<^item> \<open>assert_failed\<close>: an \<open>assert\<close> of the source failed (the program is aborted);
  \<^item> \<open>raw_access\<close>: an object was read in a slot that holds none, or constructed past the
    end of a block (undefined in C++).
\<close>

datatype failure = bad_alloc | thrown nat | assert_failed | raw_access

text \<open>
  A member function of \<open>T\<close> is a function of the values of its operands. A constructor
  returns the value of the new object, an assignment the new value of its left side; the
  moving forms also return what is left in the source object. \<open>Inl\<close> is the exception
  thrown, and then the operands keep their values. \<open>sizeof_T\<close> is \<open>sizeof(T)\<close>, and
  \<open>operator_new_ok bytes\<close> tells whether \<open>operator new(bytes)\<close> returns a block.
\<close>

record 'a T_ops =
  nothrow_move_constructible :: bool
  copy_constructible :: bool
  sizeof_T :: nat
  operator_new_ok :: "nat \<Rightarrow> bool"
  value_ctor :: "failure + 'a"
  copy_ctor :: "'a \<Rightarrow> failure + 'a"
  move_ctor :: "'a \<Rightarrow> failure + 'a \<times> 'a"
  copy_assign :: "'a \<Rightarrow> 'a \<Rightarrow> failure + 'a"
  move_assign :: "'a \<Rightarrow> 'a \<Rightarrow> failure + 'a \<times> 'a"

section \<open>Slots, buffers and the trace of a call\<close>

text \<open>
  A slot of a buffer is raw (\<open>None\<close>) or holds a live object (\<open>Some x\<close>). A buffer is the
  list of its slots. \<open>RawMemory\<close> cannot be copied (its copy operations are deleted), so
  every buffer has one owner and passing the buffer by value is exact. A cursor
  (\<open>T*\<close> into the buffer) is its offset from \<open>begin()\<close>.

  Destructor calls, allocations and releases are recorded as events. An event names the
  buffer it is about: \<open>data_mem\<close> is the buffer the vector owns when the operation is
  called, \<open>new_mem\<close> the one acquired during the operation. \<open>Destructor st i live\<close> is a
  destructor call on slot \<open>i\<close>, and \<open>live\<close> tells whether the slot held an object then.
  \<open>OperatorDelete st n\<close> releases a buffer in which \<open>n\<close> objects are still live.
\<close>

type_synonym 'a slot = "'a option"

datatype storage = data_mem | new_mem

datatype event = OperatorNew nat | OperatorDelete storage nat | Destructor storage nat bool

definition is_live :: "'a slot list \<Rightarrow> nat \<Rightarrow> bool" where
  "is_live b i = (i < length b \<and> b ! i \<noteq> None)"

definition live_count :: "'a slot list \<Rightarrow> nat" where
  "live_count b = length (filter (\<lambda>s. s \<noteq> None) b)"

definition read_slot :: "'a slot list \<Rightarrow> nat \<Rightarrow> failure + 'a" where
  "read_slot b i =
     (if i < length b then (case b ! i of None \<Rightarrow> Inl raw_access | Some x \<Rightarrow> Inr x)
      else Inl raw_access)"

text \<open>
  Placement new, \<open>new (p) T(...)\<close>, with the value \<open>x\<close> that the constructor gives: the
  slot holds \<open>x\<close> afterwards. A slot past the end of the block is not memory of the buffer,
  and constructing there is undefined.
\<close>

definition construct_at :: "'a slot list \<Rightarrow> nat \<Rightarrow> 'a \<Rightarrow> failure + 'a slot list" where
  "construct_at b i x = (if i < length b then Inr (b[i := Some x]) else Inl raw_access)"

subsection \<open>The algorithms of the standard library that the source calls\<close>

text \<open>
  \<open>std::destroy_n(p, n)\<close>, \<open>std::destroy(first, last)\<close> and \<open>std::destroy_at(p)\<close>: the
  destructor runs on each slot in turn, whatever the slot holds.
\<close>

fun destroy_n :: "storage \<Rightarrow> 'a slot list \<Rightarrow> nat \<Rightarrow> nat \<Rightarrow> 'a slot list \<times> event list" where
  "destroy_n st b first 0 = (b, [])"
| "destroy_n st b first (Suc n) =
     (case destroy_n st (b[first := None]) (Suc first) n of
        (b', evs) \<Rightarrow> (b', Destructor st first (is_live b first) # evs))"

text \<open>
  \<open>std::uninitialized_copy_n(first, n, result)\<close>: copy-constructs into raw slots; when a
  constructor throws, the objects constructed so far are destroyed and the exception is
  rethrown. The standard leaves the order of these destructor calls open; the model
  destroys from the front, as the common implementations do. The loop returns the
  exception, the cursor reached and the target buffer.
\<close>

fun uninit_copy_loop ::
  "'a T_ops \<Rightarrow> 'a slot list \<Rightarrow> nat \<Rightarrow> nat \<Rightarrow> 'a slot list \<Rightarrow> nat
     \<Rightarrow> failure option \<times> nat \<times> 'a slot list" where
  "uninit_copy_loop T src first 0 dst cur = (None, cur, dst)"
| "uninit_copy_loop T src first (Suc n) dst cur =
     (case read_slot src first of
        Inl e \<Rightarrow> (Some e, cur, dst)
      | Inr x \<Rightarrow>
          (case copy_ctor T x of
             Inl e \<Rightarrow> (Some e, cur, dst)
           | Inr y \<Rightarrow>
               (case construct_at dst cur y of
                  Inl e \<Rightarrow> (Some e, cur, dst)
                | Inr dst' \<Rightarrow> uninit_copy_loop T src (Suc first) n dst' (Suc cur))))"

definition uninitialized_copy_n ::
  "'a T_ops \<Rightarrow> storage \<Rightarrow> 'a slot list \<Rightarrow> nat \<Rightarrow> nat \<Rightarrow> 'a slot list \<Rightarrow> nat
     \<Rightarrow> failure option \<times> 'a slot list \<times> event list" where
  "uninitialized_copy_n T st src first n dst result =
     (case uninit_copy_loop T src first n dst result of
        (None, cur, dst') \<Rightarrow> (None, dst', [])
      | (Some e, cur, dst') \<Rightarrow>
          (case destroy_n st dst' result (cur - result) of
             (dst'', evs) \<Rightarrow> (Some e, dst'', evs)))"

text \<open>
  \<open>std::uninitialized_move_n(first, n, result)\<close>: the same with the move constructor, which
  also changes the source object.
\<close>

fun uninit_move_loop ::
  "'a T_ops \<Rightarrow> 'a slot list \<Rightarrow> nat \<Rightarrow> nat \<Rightarrow> 'a slot list \<Rightarrow> nat
     \<Rightarrow> failure option \<times> nat \<times> 'a slot list \<times> 'a slot list" where
  "uninit_move_loop T src first 0 dst cur = (None, cur, src, dst)"
| "uninit_move_loop T src first (Suc n) dst cur =
     (case read_slot src first of
        Inl e \<Rightarrow> (Some e, cur, src, dst)
      | Inr x \<Rightarrow>
          (case move_ctor T x of
             Inl e \<Rightarrow> (Some e, cur, src, dst)
           | Inr (y, r) \<Rightarrow>
               (case construct_at dst cur y of
                  Inl e \<Rightarrow> (Some e, cur, src, dst)
                | Inr dst' \<Rightarrow>
                    uninit_move_loop T (src[first := Some r]) (Suc first) n dst' (Suc cur))))"

definition uninitialized_move_n ::
  "'a T_ops \<Rightarrow> storage \<Rightarrow> 'a slot list \<Rightarrow> nat \<Rightarrow> nat \<Rightarrow> 'a slot list \<Rightarrow> nat
     \<Rightarrow> failure option \<times> 'a slot list \<times> 'a slot list \<times> event list" where
  "uninitialized_move_n T st src first n dst result =
     (case uninit_move_loop T src first n dst result of
        (None, cur, src', dst') \<Rightarrow> (None, src', dst', [])
      | (Some e, cur, src', dst') \<Rightarrow>
          (case destroy_n st dst' result (cur - result) of
             (dst'', evs) \<Rightarrow> (Some e, src', dst'', evs)))"

text \<open>\<open>std::uninitialized_value_construct_n(first, n)\<close>: \<open>T()\<close> in each raw slot.\<close>

fun uninit_value_loop ::
  "'a T_ops \<Rightarrow> nat \<Rightarrow> 'a slot list \<Rightarrow> nat \<Rightarrow> failure option \<times> nat \<times> 'a slot list" where
  "uninit_value_loop T 0 dst cur = (None, cur, dst)"
| "uninit_value_loop T (Suc n) dst cur =
     (case value_ctor T of
        Inl e \<Rightarrow> (Some e, cur, dst)
      | Inr y \<Rightarrow>
          (case construct_at dst cur y of
             Inl e \<Rightarrow> (Some e, cur, dst)
           | Inr dst' \<Rightarrow> uninit_value_loop T n dst' (Suc cur)))"

definition uninitialized_value_construct_n ::
  "'a T_ops \<Rightarrow> storage \<Rightarrow> 'a slot list \<Rightarrow> nat \<Rightarrow> nat
     \<Rightarrow> failure option \<times> 'a slot list \<times> event list" where
  "uninitialized_value_construct_n T st dst first n =
     (case uninit_value_loop T n dst first of
        (None, cur, dst') \<Rightarrow> (None, dst', [])
      | (Some e, cur, dst') \<Rightarrow>
          (case destroy_n st dst' first (cur - first) of
             (dst'', evs) \<Rightarrow> (Some e, dst'', evs)))"

text \<open>
  \<open>std::copy(first, last, result)\<close> between two buffers: copy assignment, slot by slot,
  with no roll-back. \<open>n\<close> is \<open>last - first\<close>.
\<close>

fun std_copy ::
  "'a T_ops \<Rightarrow> 'a slot list \<Rightarrow> nat \<Rightarrow> nat \<Rightarrow> 'a slot list \<Rightarrow> nat
     \<Rightarrow> failure option \<times> 'a slot list" where
  "std_copy T src first 0 dst result = (None, dst)"
| "std_copy T src first (Suc n) dst result =
     (case read_slot src first of
        Inl e \<Rightarrow> (Some e, dst)
      | Inr x \<Rightarrow>
          (case read_slot dst result of
             Inl e \<Rightarrow> (Some e, dst)
           | Inr d \<Rightarrow>
               (case copy_assign T d x of
                  Inl e \<Rightarrow> (Some e, dst)
                | Inr d' \<Rightarrow> std_copy T src (Suc first) n (dst[result := Some d']) (Suc result))))"

text \<open>
  \<open>std::move(first, last, result)\<close> inside one buffer: move assignment from the front.
  \<open>n\<close> is \<open>last - first\<close>.
\<close>

fun std_move ::
  "'a T_ops \<Rightarrow> 'a slot list \<Rightarrow> nat \<Rightarrow> nat \<Rightarrow> nat \<Rightarrow> failure option \<times> 'a slot list" where
  "std_move T b first 0 result = (None, b)"
| "std_move T b first (Suc n) result =
     (case read_slot b first of
        Inl e \<Rightarrow> (Some e, b)
      | Inr x \<Rightarrow>
          (case read_slot b result of
             Inl e \<Rightarrow> (Some e, b)
           | Inr d \<Rightarrow>
               (case move_assign T d x of
                  Inl e \<Rightarrow> (Some e, b)
                | Inr (d', r) \<Rightarrow>
                    std_move T (b[first := Some r, result := Some d']) (Suc first) n
                      (Suc result))))"

text \<open>
  \<open>std::move_backward(first, last, d_last)\<close> inside one buffer:
  \<^verbatim>\<open>while (first != last) *(--d_last) = std::move(*(--last));\<close>
  \<open>n\<close> is \<open>last - first\<close>.
\<close>

fun std_move_backward ::
  "'a T_ops \<Rightarrow> 'a slot list \<Rightarrow> nat \<Rightarrow> nat \<Rightarrow> nat \<Rightarrow> failure option \<times> 'a slot list" where
  "std_move_backward T b 0 last' d_last = (None, b)"
| "std_move_backward T b (Suc n) last' d_last =
     (case read_slot b (last' - 1) of
        Inl e \<Rightarrow> (Some e, b)
      | Inr x \<Rightarrow>
          (case read_slot b (d_last - 1) of
             Inl e \<Rightarrow> (Some e, b)
           | Inr d \<Rightarrow>
               (case move_assign T d x of
                  Inl e \<Rightarrow> (Some e, b)
                | Inr (d', r) \<Rightarrow>
                    std_move_backward T (b[last' - 1 := Some r, d_last - 1 := Some d']) n
                      (last' - 1) (d_last - 1))))"

section \<open>RawMemory\<close>

text \<open>
  The members \<open>buffer_\<close>, \<open>capacity_\<close>, \<open>data_\<close> and \<open>size_\<close> of the source are written
  with the suffix \<open>_m\<close>. A \<open>size_t\<close> has 64 bits and is written as a \<open>nat\<close>. The product
  \<open>n * sizeof(T)\<close> of \<open>Allocate\<close> is reduced modulo \<open>2 ^ 64\<close>, as the source computes it.
  The other product, \<open>size_ * 2\<close>, is taken as it is: \<open>size_\<close> objects are live in memory
  then, so the product is below \<open>2 ^ 64\<close> whenever \<open>sizeof(T)\<close> is at least 2.
\<close>

record 'a RawMemory =
  buffer_m :: "'a slot list"
  capacity_m :: nat

text \<open>
  \<open>Allocate(n)\<close>: \<open>operator new(n * sizeof(T))\<close>, or the null buffer when \<open>n = 0\<close>. The
  block has as many slots as the bytes requested hold; when the product wraps these are
  fewer than \<open>n\<close>. \<open>Allocate_ok T n\<close>: the request for \<open>n\<close> slots does not wrap and
  \<open>operator new\<close> returns the block. \<open>Allocate_trace n\<close> is the trace that a successful
  \<open>Allocate(n)\<close> leaves: no \<open>operator new\<close> is called for \<open>n = 0\<close>.
\<close>

definition size_t_range :: nat where
  "size_t_range = 2 ^ 64"

definition Allocate :: "'a T_ops \<Rightarrow> nat \<Rightarrow> failure + 'a slot list" where
  "Allocate T n =
     (if n \<noteq> 0 then
        (if operator_new_ok T ((n * sizeof_T T) mod size_t_range)
         then Inr (replicate (((n * sizeof_T T) mod size_t_range) div sizeof_T T) None)
         else Inl bad_alloc)
      else Inr [])"

definition Allocate_ok :: "'a T_ops \<Rightarrow> nat \<Rightarrow> bool" where
  "Allocate_ok T n =
     (0 < sizeof_T T \<and> n * sizeof_T T < size_t_range \<and> operator_new_ok T (n * sizeof_T T))"

definition Allocate_trace :: "nat \<Rightarrow> event list" where
  "Allocate_trace n = (if n \<noteq> 0 then [OperatorNew n] else [])"

text \<open>\<open>RawMemory()\<close> and \<open>RawMemory(capacity)\<close>.\<close>

definition RawMemory_default :: "'a RawMemory" where
  "RawMemory_default = \<lparr>buffer_m = [], capacity_m = 0\<rparr>"

definition RawMemory_new :: "'a T_ops \<Rightarrow> nat \<Rightarrow> failure + 'a RawMemory" where
  "RawMemory_new T capacity =
     (case Allocate T capacity of
        Inl e \<Rightarrow> Inl e
      | Inr b \<Rightarrow> Inr \<lparr>buffer_m = b, capacity_m = capacity\<rparr>)"

text \<open>
  \<open>~RawMemory\<close>: \<open>Deallocate(buffer_m)\<close>. It runs no destructor; the event counts the objects
  that were still live in the buffer.
\<close>

definition RawMemory_dtor :: "storage \<Rightarrow> 'a RawMemory \<Rightarrow> event list" where
  "RawMemory_dtor st m = [OperatorDelete st (live_count (buffer_m m))]"

text \<open>
  \<open>operator+(offset)\<close> with its \<open>assert(offset <= capacity_m)\<close>, and \<open>operator[](index)\<close>
  with its \<open>assert(index < capacity_m)\<close>; both return the cursor.
\<close>

definition RawMemory_plus :: "'a RawMemory \<Rightarrow> nat \<Rightarrow> failure + nat" where
  "RawMemory_plus m offset = (if offset \<le> capacity_m m then Inr offset else Inl assert_failed)"

definition RawMemory_at :: "'a RawMemory \<Rightarrow> nat \<Rightarrow> failure + nat" where
  "RawMemory_at m index = (if index < capacity_m m then Inr index else Inl assert_failed)"

text \<open>\<open>Swap(other)\<close> exchanges buffer and capacity; the pair is (this, other) afterwards.\<close>

definition RawMemory_Swap :: "'a RawMemory \<Rightarrow> 'a RawMemory \<Rightarrow> 'a RawMemory \<times> 'a RawMemory" where
  "RawMemory_Swap m other =
     (\<lparr>buffer_m = buffer_m other, capacity_m = capacity_m other\<rparr>,
      \<lparr>buffer_m = buffer_m m, capacity_m = capacity_m m\<rparr>)"

text \<open>
  \<open>RawMemory(RawMemory&& other)\<close>: takes the buffer and leaves \<open>other\<close> empty; the pair is
  (this, other) afterwards.
\<close>

definition RawMemory_move :: "'a RawMemory \<Rightarrow> 'a RawMemory \<times> 'a RawMemory" where
  "RawMemory_move other =
     (\<lparr>buffer_m = buffer_m other, capacity_m = capacity_m other\<rparr>, \<lparr>buffer_m = [], capacity_m = 0\<rparr>)"

section \<open>Vector\<close>

record 'a Vector =
  data_m :: "'a RawMemory"
  size_m :: nat

definition Size :: "'a Vector \<Rightarrow> nat" where
  "Size v = size_m v"

definition Capacity :: "'a Vector \<Rightarrow> nat" where
  "Capacity v = capacity_m (data_m v)"

text \<open>
  \<open>begin()\<close> is the cursor 0 and \<open>end()\<close> the cursor \<open>size_\<close>. The private helpers
  \<open>DestroyN\<close>, \<open>CopyConstruct\<close> and \<open>Destroy\<close> are not called by the source.

  The class invariant, and the sequence of values a vector holds.
\<close>

definition Vector_inv :: "'a Vector \<Rightarrow> bool" where
  "Vector_inv v =
     (length (buffer_m (data_m v)) = capacity_m (data_m v) \<and>
      size_m v \<le> capacity_m (data_m v) \<and>
      list_all (\<lambda>s. s \<noteq> None) (take (size_m v) (buffer_m (data_m v))) \<and>
      list_all (\<lambda>s. s = None) (drop (size_m v) (buffer_m (data_m v))))"

definition elems :: "'a Vector \<Rightarrow> 'a list" where
  "elems v = map the (take (size_m v) (buffer_m (data_m v)))"

text \<open>\<open>operator[](index)\<close>, with the assertions of \<open>Vector\<close> and of \<open>RawMemory\<close>.\<close>

definition index_op :: "'a Vector \<Rightarrow> nat \<Rightarrow> failure + 'a" where
  "index_op v index =
     (if index < size_m v then
        (case RawMemory_at (data_m v) index of
           Inl e \<Rightarrow> Inl e
         | Inr p \<Rightarrow> read_slot (buffer_m (data_m v)) p)
      else Inl assert_failed)"

text \<open>\<open>Vector()\<close>.\<close>

definition Vector_default :: "'a Vector" where
  "Vector_default = \<lparr>data_m = RawMemory_default, size_m = 0\<rparr>"

text \<open>
  \<open>Reserve(new_capacity)\<close>. The relocation is chosen by \<open>if constexpr\<close>. When it throws,
  \<open>new_data\<close> goes out of scope and is released; otherwise the buffers are swapped, the
  objects of the old buffer destroyed and the old buffer released.
\<close>

definition Reserve ::
  "'a T_ops \<Rightarrow> 'a Vector \<Rightarrow> nat \<Rightarrow> (failure + unit) \<times> 'a Vector \<times> event list" where
  "Reserve T v new_capacity =
     (if new_capacity \<le> capacity_m (data_m v) then (Inr (), v, [])
      else
        (case RawMemory_new T new_capacity of
           Inl e \<Rightarrow> (Inl e, v, [])
         | Inr new_data \<Rightarrow>
             (case (if nothrow_move_constructible T \<or> \<not> copy_constructible T
                    then uninitialized_move_n T new_mem (buffer_m (data_m v)) 0 (size_m v)
                           (buffer_m new_data) 0
                    else (case uninitialized_copy_n T new_mem (buffer_m (data_m v)) 0 (size_m v)
                                 (buffer_m new_data) 0 of
                            (r, dst, evs) \<Rightarrow> (r, buffer_m (data_m v), dst, evs))) of
                (Some e, src, dst, evs) \<Rightarrow>
                  (Inl e, v\<lparr>data_m := (data_m v)\<lparr>buffer_m := src\<rparr>\<rparr>,
                   Allocate_trace new_capacity @ evs
                     @ RawMemory_dtor new_mem (new_data\<lparr>buffer_m := dst\<rparr>))
              | (None, src, dst, evs) \<Rightarrow>
                  (case RawMemory_Swap ((data_m v)\<lparr>buffer_m := src\<rparr>) (new_data\<lparr>buffer_m := dst\<rparr>) of
                     (data', new_data') \<Rightarrow>
                       (case destroy_n data_mem (buffer_m new_data') 0 (size_m v) of
                          (old, evs') \<Rightarrow>
                            (Inr (), v\<lparr>data_m := data'\<rparr>,
                             Allocate_trace new_capacity @ evs @ evs'
                               @ RawMemory_dtor data_mem (new_data'\<lparr>buffer_m := old\<rparr>)))))))"

text \<open>
  \<open>Vector(size)\<close>: a buffer of \<open>size\<close> slots, each value-initialised. A constructor that
  fails leaves no object; the buffer member is then released.
\<close>

definition Vector_sized :: "'a T_ops \<Rightarrow> nat \<Rightarrow> (failure + 'a Vector) \<times> event list" where
  "Vector_sized T size' =
     (case RawMemory_new T size' of
        Inl e \<Rightarrow> (Inl e, [])
      | Inr d \<Rightarrow>
          (case uninitialized_value_construct_n T new_mem (buffer_m d) 0 size' of
             (Some e, dst, evs) \<Rightarrow>
               (Inl e, Allocate_trace size' @ evs @ RawMemory_dtor new_mem (d\<lparr>buffer_m := dst\<rparr>))
           | (None, dst, evs) \<Rightarrow>
               (Inr \<lparr>data_m = d\<lparr>buffer_m := dst\<rparr>, size_m = size'\<rparr>, Allocate_trace size' @ evs)))"

text \<open>
  \<open>Vector(const Vector& other)\<close>. Both branches of the \<open>if constexpr\<close> read \<open>other\<close> through
  \<open>const T*\<close>. In the first, \<open>std::uninitialized_move_n\<close> applies \<open>std::move\<close> to a
  \<open>const T&\<close>; the result is a \<open>const T&&\<close>, which the move constructor \<open>T(T&&)\<close> does not
  accept and the copy constructor \<open>T(const T&)\<close> does. So that branch copy-constructs as
  well, and \<open>other\<close> is not changed.
\<close>

definition uninitialized_move_n_const ::
  "'a T_ops \<Rightarrow> storage \<Rightarrow> 'a slot list \<Rightarrow> nat \<Rightarrow> nat \<Rightarrow> 'a slot list \<Rightarrow> nat
     \<Rightarrow> failure option \<times> 'a slot list \<times> event list" where
  "uninitialized_move_n_const T st src first n dst result =
     uninitialized_copy_n T st src first n dst result"

definition Vector_copy :: "'a T_ops \<Rightarrow> 'a Vector \<Rightarrow> (failure + 'a Vector) \<times> event list" where
  "Vector_copy T other =
     (case RawMemory_new T (size_m other) of
        Inl e \<Rightarrow> (Inl e, [])
      | Inr d \<Rightarrow>
          (case (if nothrow_move_constructible T \<or> \<not> copy_constructible T
                 then uninitialized_move_n_const T new_mem (buffer_m (data_m other)) 0
                        (size_m other) (buffer_m d) 0
                 else uninitialized_copy_n T new_mem (buffer_m (data_m other)) 0
                        (size_m other) (buffer_m d) 0) of
             (Some e, dst, evs) \<Rightarrow>
               (Inl e, Allocate_trace (size_m other) @ evs
                         @ RawMemory_dtor new_mem (d\<lparr>buffer_m := dst\<rparr>))
           | (None, dst, evs) \<Rightarrow>
               (Inr \<lparr>data_m = d\<lparr>buffer_m := dst\<rparr>, size_m = size_m other\<rparr>,
                Allocate_trace (size_m other) @ evs)))"

text \<open>\<open>~Vector\<close>: \<open>std::destroy_n(data_.GetAddress(), size_)\<close>, then the buffer is released.\<close>

definition Vector_dtor :: "storage \<Rightarrow> 'a Vector \<Rightarrow> event list" where
  "Vector_dtor st v =
     (case destroy_n st (buffer_m (data_m v)) 0 (size_m v) of
        (b, evs) \<Rightarrow> evs @ RawMemory_dtor st ((data_m v)\<lparr>buffer_m := b\<rparr>))"

text \<open>
  \<open>Vector(Vector&& other)\<close>: the pair is (this, other) afterwards. The buffer that the move
  assignment of \<open>RawMemory\<close> releases is the null buffer of the member just constructed.
\<close>

definition Vector_move :: "'a Vector \<Rightarrow> 'a Vector \<times> 'a Vector" where
  "Vector_move other =
     (case RawMemory_move (data_m other) of
        (tmp, other_data) \<Rightarrow>
          (case RawMemory_Swap RawMemory_default tmp of
             (d, tmp') \<Rightarrow>
               (\<lparr>data_m = d, size_m = size_m other\<rparr>, \<lparr>data_m = other_data, size_m = 0\<rparr>)))"

text \<open>\<open>Swap(other)\<close> and \<open>operator=(Vector&& rhs)\<close> for \<open>this != &rhs\<close>: (this, other) afterwards.\<close>

definition Swap :: "'a Vector \<Rightarrow> 'a Vector \<Rightarrow> 'a Vector \<times> 'a Vector" where
  "Swap v other =
     (case RawMemory_Swap (data_m v) (data_m other) of
        (d, d') \<Rightarrow> (\<lparr>data_m = d, size_m = size_m other\<rparr>, \<lparr>data_m = d', size_m = size_m v\<rparr>))"

definition move_assign_op :: "'a Vector \<Rightarrow> 'a Vector \<Rightarrow> 'a Vector \<times> 'a Vector" where
  "move_assign_op v rhs =
     (case RawMemory_Swap (data_m v) (data_m rhs) of
        (d, d') \<Rightarrow> (\<lparr>data_m = d, size_m = size_m rhs\<rparr>, \<lparr>data_m = d', size_m = size_m v\<rparr>))"

text \<open>
  \<open>operator=(const Vector& rhs)\<close>. The right side is the vector itself (\<open>this == &rhs\<close>) or
  another object.
\<close>

datatype 'a operand = This | Other "'a Vector"

definition copy_assign_op ::
  "'a T_ops \<Rightarrow> 'a Vector \<Rightarrow> 'a operand \<Rightarrow> (failure + unit) \<times> 'a Vector \<times> event list" where
  "copy_assign_op T v rhs' =
     (case rhs' of
        This \<Rightarrow> (Inr (), v, [])
      | Other rhs \<Rightarrow>
          (if size_m rhs > capacity_m (data_m v) then
             (case Vector_copy T rhs of
                (Inl e, evs) \<Rightarrow> (Inl e, v, evs)
              | (Inr rhs_copy, evs) \<Rightarrow>
                  (case Swap v rhs_copy of
                     (v', rhs_copy') \<Rightarrow>
                       (Inr (), v'\<lparr>size_m := size_m rhs\<rparr>, evs @ Vector_dtor data_mem rhs_copy')))
           else if size_m rhs > size_m v then
             (case std_copy T (buffer_m (data_m rhs)) 0 (size_m v) (buffer_m (data_m v)) 0 of
                (Some e, dst) \<Rightarrow> (Inl e, v\<lparr>data_m := (data_m v)\<lparr>buffer_m := dst\<rparr>\<rparr>, [])
              | (None, dst) \<Rightarrow>
                  (case uninitialized_copy_n T data_mem (buffer_m (data_m rhs)) (size_m v)
                          (size_m rhs - size_m v) dst (size_m v) of
                     (Some e, dst', evs) \<Rightarrow>
                       (Inl e, v\<lparr>data_m := (data_m v)\<lparr>buffer_m := dst'\<rparr>\<rparr>, evs)
                   | (None, dst', evs) \<Rightarrow>
                       (Inr (), \<lparr>data_m = (data_m v)\<lparr>buffer_m := dst'\<rparr>, size_m = size_m rhs\<rparr>,
                        evs)))
           else
             (case std_copy T (buffer_m (data_m rhs)) 0 (size_m rhs) (buffer_m (data_m v)) 0 of
                (Some e, dst) \<Rightarrow> (Inl e, v\<lparr>data_m := (data_m v)\<lparr>buffer_m := dst\<rparr>\<rparr>, [])
              | (None, dst) \<Rightarrow>
                  (case destroy_n data_mem dst (size_m rhs) (size_m v - size_m rhs) of
                     (dst', evs) \<Rightarrow>
                       (Inr (), \<lparr>data_m = (data_m v)\<lparr>buffer_m := dst'\<rparr>, size_m = size_m rhs\<rparr>,
                        evs)))))"

text \<open>
  \<open>Resize(new_size)\<close>. After a \<open>Reserve\<close> that reallocated, the buffer of the vector is the
  new one.
\<close>

definition Resize ::
  "'a T_ops \<Rightarrow> 'a Vector \<Rightarrow> nat \<Rightarrow> (failure + unit) \<times> 'a Vector \<times> event list" where
  "Resize T v new_size =
     (if size_m v < new_size then
        (case (if capacity_m (data_m v) < new_size then Reserve T v new_size
               else (Inr (), v, [])) of
           (Inl e, v', evs) \<Rightarrow> (Inl e, v', evs)
         | (Inr u, v', evs) \<Rightarrow>
             (case uninitialized_value_construct_n T
                     (if capacity_m (data_m v) < new_size then new_mem else data_mem)
                     (buffer_m (data_m v')) (size_m v') (new_size - size_m v') of
                (Some e, dst, evs') \<Rightarrow>
                  (Inl e, v'\<lparr>data_m := (data_m v')\<lparr>buffer_m := dst\<rparr>\<rparr>, evs @ evs')
              | (None, dst, evs') \<Rightarrow>
                  (Inr (), \<lparr>data_m = (data_m v')\<lparr>buffer_m := dst\<rparr>, size_m = new_size\<rparr>,
                   evs @ evs')))
      else
        (case destroy_n data_mem (buffer_m (data_m v)) new_size (size_m v - new_size) of
           (b, evs) \<Rightarrow>
             (Inr (), \<lparr>data_m = (data_m v)\<lparr>buffer_m := b\<rparr>, size_m = new_size\<rparr>, evs)))"

text \<open>\<open>PopBack()\<close>, with its \<open>assert(Size() != 0)\<close>.\<close>

definition PopBack :: "'a Vector \<Rightarrow> (failure + unit) \<times> 'a Vector \<times> event list" where
  "PopBack v =
     (if Size v \<noteq> 0 then
        (case destroy_n data_mem (buffer_m (data_m v)) (size_m v - 1) 1 of
           (b, evs) \<Rightarrow>
             (Inr (), \<lparr>data_m = (data_m v)\<lparr>buffer_m := b\<rparr>, size_m = size_m v - 1\<rparr>, evs))
      else (Inl assert_failed, v, []))"

text \<open>
  The arguments of \<open>EmplaceBack\<close> and \<open>Emplace\<close>. The source forwards \<open>args...\<close> to the
  constructor of \<open>T\<close> at one point of each branch, and the arguments may refer to elements
  of the vector itself. So the argument \<open>args\<close> of the model is the constructor call as a
  function of the buffer that \<open>data_\<close> holds at that point: it gives the exception, or the
  value constructed and the buffer afterwards (changed when an element was moved from).
  \<open>emplace_value x\<close> is a call that constructs \<open>x\<close> from objects outside the vector.

  The parameter of \<open>PushBack\<close> and \<open>Insert\<close> is a reference: to an object outside the vector
  (\<open>Object x\<close>, with its value) or to the element at a cursor of the vector (\<open>Element i\<close>).
  \<open>copy_from\<close> is the call \<open>T(value)\<close> for a \<open>const T&\<close>, \<open>move_from\<close> the call
  \<open>T(std::forward<T>(value))\<close> for a \<open>T&&\<close>; what a move leaves in an object outside
  the vector is not part of the model.
\<close>

type_synonym 'a ctor_call = "'a slot list \<Rightarrow> failure + 'a \<times> 'a slot list"

definition emplace_value :: "'a \<Rightarrow> 'a ctor_call" where
  "emplace_value x = (\<lambda>b. Inr (x, b))"

datatype 'a arg = Object 'a | Element nat

fun copy_from :: "'a T_ops \<Rightarrow> 'a arg \<Rightarrow> 'a ctor_call" where
  "copy_from T (Object x) =
     (\<lambda>b. case copy_ctor T x of Inl e \<Rightarrow> Inl e | Inr y \<Rightarrow> Inr (y, b))"
| "copy_from T (Element i) =
     (\<lambda>b. case read_slot b i of
             Inl e \<Rightarrow> Inl e
           | Inr x \<Rightarrow> (case copy_ctor T x of Inl e \<Rightarrow> Inl e | Inr y \<Rightarrow> Inr (y, b)))"

fun move_from :: "'a T_ops \<Rightarrow> 'a arg \<Rightarrow> 'a ctor_call" where
  "move_from T (Object x) =
     (\<lambda>b. case move_ctor T x of Inl e \<Rightarrow> Inl e | Inr (y, r) \<Rightarrow> Inr (y, b))"
| "move_from T (Element i) =
     (\<lambda>b. case read_slot b i of
             Inl e \<Rightarrow> Inl e
           | Inr x \<Rightarrow>
               (case move_ctor T x of
                  Inl e \<Rightarrow> Inl e
                | Inr (y, r) \<Rightarrow> Inr (y, b[i := Some r])))"

text \<open>
  \<open>EmplaceBack(args...)\<close>. The value returned is the cursor of the reference
  \<open>data_[size_ - 1]\<close>. In the first branch the constructor runs after \<open>Reserve(1)\<close>, in the
  second before the relocation, on the old buffer.

  In the second branch \<open>new_data + size_\<close> asserts \<open>size_ <= 2 * size_\<close>, which holds.
  The last lines of the function, \<open>++size_\<close> and the \<open>return\<close>, are \<open>EmplaceBack_return\<close>.
\<close>

definition EmplaceBack_return ::
  "'a Vector \<Rightarrow> event list \<Rightarrow> (failure + nat) \<times> 'a Vector \<times> event list" where
  "EmplaceBack_return v evs =
     (case RawMemory_at (data_m v) (Suc (size_m v) - 1) of
        Inl e \<Rightarrow> (Inl e, v\<lparr>size_m := Suc (size_m v)\<rparr>, evs)
      | Inr p \<Rightarrow> (Inr p, v\<lparr>size_m := Suc (size_m v)\<rparr>, evs))"

definition EmplaceBack ::
  "'a T_ops \<Rightarrow> 'a Vector \<Rightarrow> 'a ctor_call \<Rightarrow> (failure + nat) \<times> 'a Vector \<times> event list" where
  "EmplaceBack T v args =
     (if size_m v = 0 then
        (case Reserve T v 1 of
           (Inl e, v', evs) \<Rightarrow> (Inl e, v', evs)
         | (Inr u, v', evs) \<Rightarrow>
             (case args (buffer_m (data_m v')) of
                Inl e \<Rightarrow> (Inl e, v', evs)
              | Inr (x, b) \<Rightarrow>
                  (case construct_at b 0 x of
                     Inl e \<Rightarrow> (Inl e, v'\<lparr>data_m := (data_m v')\<lparr>buffer_m := b\<rparr>\<rparr>, evs)
                   | Inr b' \<Rightarrow>
                       EmplaceBack_return (v'\<lparr>data_m := (data_m v')\<lparr>buffer_m := b'\<rparr>\<rparr>) evs)))
      else if size_m v = Capacity v then
        (case RawMemory_new T (size_m v * 2) of
           Inl e \<Rightarrow> (Inl e, v, [])
         | Inr new_data \<Rightarrow>
             (case args (buffer_m (data_m v)) of
                Inl e \<Rightarrow>
                  (Inl e, v, Allocate_trace (size_m v * 2) @ RawMemory_dtor new_mem new_data)
              | Inr (x, b) \<Rightarrow>
                  (case construct_at (buffer_m new_data) (size_m v) x of
                     Inl e \<Rightarrow>
                       (Inl e, v\<lparr>data_m := (data_m v)\<lparr>buffer_m := b\<rparr>\<rparr>,
                        Allocate_trace (size_m v * 2) @ RawMemory_dtor new_mem new_data)
                   | Inr nb \<Rightarrow>
                       (case (if nothrow_move_constructible T \<or> \<not> copy_constructible T
                              then uninitialized_move_n T new_mem b 0 (size_m v) nb 0
                              else (case uninitialized_copy_n T new_mem b 0 (size_m v) nb 0 of
                                      (r, dst, evs) \<Rightarrow> (r, b, dst, evs))) of
                          (Some e, src, dst, evs) \<Rightarrow>
                            (case destroy_n new_mem dst (size_m v) 1 of
                               (dst', evs') \<Rightarrow>
                                 (Inl e, v\<lparr>data_m := (data_m v)\<lparr>buffer_m := src\<rparr>\<rparr>,
                                  Allocate_trace (size_m v * 2) @ evs @ evs'
                                    @ RawMemory_dtor new_mem (new_data\<lparr>buffer_m := dst'\<rparr>)))
                        | (None, src, dst, evs) \<Rightarrow>
                            (case destroy_n data_mem src 0 (size_m v) of
                               (old, evs') \<Rightarrow>
                                 (case RawMemory_Swap ((data_m v)\<lparr>buffer_m := old\<rparr>)
                                         (new_data\<lparr>buffer_m := dst\<rparr>) of
                                    (data', new_data') \<Rightarrow>
                                      EmplaceBack_return (v\<lparr>data_m := data'\<rparr>)
                                        (Allocate_trace (size_m v * 2) @ evs @ evs'
                                           @ RawMemory_dtor data_mem new_data')))))))
      else
        (case RawMemory_plus (data_m v) (size_m v) of
           Inl e \<Rightarrow> (Inl e, v, [])
         | Inr p \<Rightarrow>
             (case args (buffer_m (data_m v)) of
                Inl e \<Rightarrow> (Inl e, v, [])
              | Inr (x, b) \<Rightarrow>
                  (case construct_at b p x of
                     Inl e \<Rightarrow> (Inl e, v\<lparr>data_m := (data_m v)\<lparr>buffer_m := b\<rparr>\<rparr>, [])
                   | Inr b' \<Rightarrow>
                       EmplaceBack_return (v\<lparr>data_m := (data_m v)\<lparr>buffer_m := b'\<rparr>\<rparr>) []))))"

text \<open>\<open>PushBack(const T& value)\<close> and \<open>PushBack(T&& value)\<close>.\<close>

definition PushBack ::
  "'a T_ops \<Rightarrow> 'a Vector \<Rightarrow> 'a arg \<Rightarrow> (failure + unit) \<times> 'a Vector \<times> event list" where
  "PushBack T v value' =
     (case EmplaceBack T v (copy_from T value') of
        (r, v', evs) \<Rightarrow> (map_sum id (\<lambda>p. ()) r, v', evs))"

definition PushBack_rvalue ::
  "'a T_ops \<Rightarrow> 'a Vector \<Rightarrow> 'a arg \<Rightarrow> (failure + unit) \<times> 'a Vector \<times> event list" where
  "PushBack_rvalue T v value' =
     (case EmplaceBack T v (move_from T value') of
        (r, v', evs) \<Rightarrow> (map_sum id (\<lambda>p. ()) r, v', evs))"

text \<open>
  \<open>Emplace(pos, args...)\<close>. The cursor \<open>pos\<close> is the offset \<open>dist = pos - begin()\<close>, so
  \<open>pos >= begin()\<close> holds and the assertion is \<open>pos <= end()\<close>.

  \<open>Emplace_relocate\<close> is the relocation inside the outer \<open>try\<close> of the reallocating branch:
  it returns the exception that leaves it, the old and the new buffer, and the events. In
  the copying case the second \<open>std::uninitialized_copy_n\<close> has a \<open>try\<close> of its own, whose
  handler runs \<open>std::destroy_n(new_data.GetAddress(), dist + 1)\<close> and rethrows.
\<close>

definition Emplace_relocate ::
  "'a T_ops \<Rightarrow> 'a slot list \<Rightarrow> nat \<Rightarrow> nat \<Rightarrow> 'a slot list
     \<Rightarrow> failure option \<times> 'a slot list \<times> 'a slot list \<times> event list" where
  "Emplace_relocate T src size' dist dst =
     (if nothrow_move_constructible T \<or> \<not> copy_constructible T then
        (case uninitialized_move_n T new_mem src 0 dist dst 0 of
           (Some e, src1, dst1, evs) \<Rightarrow> (Some e, src1, dst1, evs)
         | (None, src1, dst1, evs) \<Rightarrow>
             (case uninitialized_move_n T new_mem src1 dist (size' - dist) dst1 (dist + 1) of
                (r, src2, dst2, evs') \<Rightarrow> (r, src2, dst2, evs @ evs')))
      else
        (case uninitialized_copy_n T new_mem src 0 dist dst 0 of
           (Some e, dst1, evs) \<Rightarrow> (Some e, src, dst1, evs)
         | (None, dst1, evs) \<Rightarrow>
             (case uninitialized_copy_n T new_mem src dist (size' - dist) dst1 (dist + 1) of
                (Some e, dst2, evs') \<Rightarrow>
                  (case destroy_n new_mem dst2 0 (dist + 1) of
                     (dst3, evs'') \<Rightarrow> (Some e, src, dst3, evs @ evs' @ evs''))
              | (None, dst2, evs') \<Rightarrow> (None, src, dst2, evs @ evs'))))"

text \<open>
  \<open>Emplace_shift\<close> is the body of the \<open>try\<close> of the branch with spare capacity. There
  \<open>size_ < Capacity()\<close> and \<open>dist < size_\<close>, so the assertions of \<open>data_ + size_\<close> and
  \<open>data_ + dist\<close> hold. The call is
  \<open>std::move_backward(begin() + dist, end(), end() + 1)\<close>. The constructor of the new
  element runs last, on the buffer as the shift has left it.
\<close>

definition Emplace_shift ::
  "'a T_ops \<Rightarrow> 'a slot list \<Rightarrow> nat \<Rightarrow> nat \<Rightarrow> 'a ctor_call
     \<Rightarrow> failure option \<times> 'a slot list \<times> event list" where
  "Emplace_shift T b size' dist args =
     (case read_slot b (size' - 1) of
        Inl e \<Rightarrow> (Some e, b, [])
      | Inr x \<Rightarrow>
          (case move_ctor T x of
             Inl e \<Rightarrow> (Some e, b, [])
           | Inr (y, r) \<Rightarrow>
               (case construct_at (b[size' - 1 := Some r]) size' y of
                  Inl e \<Rightarrow> (Some e, b[size' - 1 := Some r], [])
                | Inr b1 \<Rightarrow>
                    (case std_move_backward T b1 (size' - dist) size' (size' + 1) of
                       (Some e, b2) \<Rightarrow> (Some e, b2, [])
                     | (None, b2) \<Rightarrow>
                         (case destroy_n data_mem b2 dist 1 of
                            (b3, evs) \<Rightarrow>
                              (case args b3 of
                                 Inl e \<Rightarrow> (Some e, b3, evs)
                               | Inr (a, b4) \<Rightarrow>
                                   (case construct_at b4 dist a of
                                      Inl e \<Rightarrow> (Some e, b4, evs)
                                    | Inr b5 \<Rightarrow> (None, b5, evs))))))))"

text \<open>
  In the reallocating branch \<open>new_data + dist\<close> asserts \<open>dist <= 2 * size_\<close>, and at the
  \<open>return\<close> of both branches \<open>data_[dist]\<close> asserts \<open>dist < capacity_\<close>; with
  \<open>dist < size_\<close> both hold (the capacity is then \<open>2 * size_\<close>, or above \<open>size_\<close>). The
  constructor of the new element runs first there, on the old buffer.
\<close>

definition Emplace ::
  "'a T_ops \<Rightarrow> 'a Vector \<Rightarrow> nat \<Rightarrow> 'a ctor_call
     \<Rightarrow> (failure + nat) \<times> 'a Vector \<times> event list" where
  "Emplace T v pos args =
     (if \<not> pos \<le> size_m v then (Inl assert_failed, v, [])
      else if pos = size_m v then EmplaceBack T v args
      else if size_m v \<ge> Capacity v then
        (case RawMemory_new T (size_m v * 2) of
           Inl e \<Rightarrow> (Inl e, v, [])
         | Inr new_data \<Rightarrow>
             (case args (buffer_m (data_m v)) of
                Inl e \<Rightarrow>
                  (Inl e, v, Allocate_trace (size_m v * 2) @ RawMemory_dtor new_mem new_data)
              | Inr (x, b) \<Rightarrow>
                  (case construct_at (buffer_m new_data) pos x of
                     Inl e \<Rightarrow>
                       (Inl e, v\<lparr>data_m := (data_m v)\<lparr>buffer_m := b\<rparr>\<rparr>,
                        Allocate_trace (size_m v * 2) @ RawMemory_dtor new_mem new_data)
                   | Inr nb \<Rightarrow>
                       (case Emplace_relocate T b (size_m v) pos nb of
                          (Some e, src, dst, evs) \<Rightarrow>
                            (case destroy_n new_mem dst pos 1 of
                               (dst', evs') \<Rightarrow>
                                 (Inl e, v\<lparr>data_m := (data_m v)\<lparr>buffer_m := src\<rparr>\<rparr>,
                                  Allocate_trace (size_m v * 2) @ evs @ evs'
                                    @ RawMemory_dtor new_mem (new_data\<lparr>buffer_m := dst'\<rparr>)))
                        | (None, src, dst, evs) \<Rightarrow>
                            (case destroy_n data_mem src 0 (size_m v) of
                               (old, evs') \<Rightarrow>
                                 (case RawMemory_Swap ((data_m v)\<lparr>buffer_m := old\<rparr>)
                                         (new_data\<lparr>buffer_m := dst\<rparr>) of
                                    (data', new_data') \<Rightarrow>
                                      (Inr pos, \<lparr>data_m = data', size_m = Suc (size_m v)\<rparr>,
                                       Allocate_trace (size_m v * 2) @ evs @ evs'
                                         @ RawMemory_dtor data_mem new_data')))))))
      else
        (case Emplace_shift T (buffer_m (data_m v)) (size_m v) pos args of
           (Some e, b, evs) \<Rightarrow>
             (case destroy_n data_mem b (size_m v) 1 of
                (b', evs') \<Rightarrow> (Inl e, v\<lparr>data_m := (data_m v)\<lparr>buffer_m := b'\<rparr>\<rparr>, evs @ evs'))
         | (None, b, evs) \<Rightarrow>
             (Inr pos, \<lparr>data_m = (data_m v)\<lparr>buffer_m := b\<rparr>, size_m = Suc (size_m v)\<rparr>, evs)))"

text \<open>
  \<open>Erase(pos)\<close>, with \<open>assert(pos >= begin() && pos < end())\<close>; the call is
  \<open>std::move(begin() + dist + 1, end(), begin() + dist)\<close>, and the \<open>return\<close> goes through
  \<open>RawMemory::operator[]\<close>.
\<close>

definition Erase ::
  "'a T_ops \<Rightarrow> 'a Vector \<Rightarrow> nat \<Rightarrow> (failure + nat) \<times> 'a Vector \<times> event list" where
  "Erase T v pos =
     (if \<not> pos < size_m v then (Inl assert_failed, v, [])
      else
        (case std_move T (buffer_m (data_m v)) (pos + 1) (size_m v - (pos + 1)) pos of
           (Some e, b) \<Rightarrow> (Inl e, v\<lparr>data_m := (data_m v)\<lparr>buffer_m := b\<rparr>\<rparr>, [])
         | (None, b) \<Rightarrow>
             (case destroy_n data_mem b (size_m v - 1) 1 of
                (b', evs) \<Rightarrow>
                  (case RawMemory_at (data_m v) pos of
                     Inl e \<Rightarrow>
                       (Inl e, \<lparr>data_m = (data_m v)\<lparr>buffer_m := b'\<rparr>, size_m = size_m v - 1\<rparr>, evs)
                   | Inr p \<Rightarrow>
                       (Inr p, \<lparr>data_m = (data_m v)\<lparr>buffer_m := b'\<rparr>, size_m = size_m v - 1\<rparr>,
                        evs)))))"

text \<open>\<open>Insert(pos, const T& value)\<close> and \<open>Insert(pos, T&& value)\<close>.\<close>

definition Insert ::
  "'a T_ops \<Rightarrow> 'a Vector \<Rightarrow> nat \<Rightarrow> 'a arg \<Rightarrow> (failure + nat) \<times> 'a Vector \<times> event list" where
  "Insert T v pos value' = Emplace T v pos (copy_from T value')"

definition Insert_rvalue ::
  "'a T_ops \<Rightarrow> 'a Vector \<Rightarrow> nat \<Rightarrow> 'a arg \<Rightarrow> (failure + nat) \<times> 'a Vector \<times> event list" where
  "Insert_rvalue T v pos value' = Emplace T v pos (move_from T value')"

section \<open>Element types used in the examples\<close>

text \<open>
  \<open>int_like\<close>: a trivially copyable type such as \<open>int\<close>. Nothing throws, and a move is a copy.
\<close>

definition int_like :: "nat T_ops" where
  "int_like =
     \<lparr>nothrow_move_constructible = True, copy_constructible = True,
      sizeof_T = 4, operator_new_ok = (\<lambda>bytes. True),
      value_ctor = Inr 0,
      copy_ctor = (\<lambda>x. Inr x),
      move_ctor = (\<lambda>x. Inr (x, x)),
      copy_assign = (\<lambda>d x. Inr x),
      move_assign = (\<lambda>d x. Inr (x, x))\<rparr>"

text \<open>
  \<open>unique_ptr_like\<close>: a move-only owner such as \<open>std::unique_ptr<int>\<close>. The value is the
  object owned, if any; a move leaves the source null and does not throw. The copy
  operations do not exist (they are given as throwing, and are never called).
\<close>

definition unique_ptr_like :: "nat option T_ops" where
  "unique_ptr_like =
     \<lparr>nothrow_move_constructible = True, copy_constructible = False,
      sizeof_T = 8, operator_new_ok = (\<lambda>bytes. True),
      value_ctor = Inr None,
      copy_ctor = (\<lambda>x. Inl (thrown 0)),
      move_ctor = (\<lambda>x. Inr (x, None)),
      copy_assign = (\<lambda>d x. Inl (thrown 0)),
      move_assign = (\<lambda>d x. Inr (x, None))\<rparr>"

text \<open>
  \<open>throwing_copy\<close>: an instrumented type whose move constructor may throw and whose copy
  constructor throws \<open>thrown x\<close> for the values \<open>x\<close> at or above 100, so relocation copies.
\<close>

definition throwing_copy :: "nat T_ops" where
  "throwing_copy =
     \<lparr>nothrow_move_constructible = False, copy_constructible = True,
      sizeof_T = 4, operator_new_ok = (\<lambda>bytes. True),
      value_ctor = Inr 0,
      copy_ctor = (\<lambda>x. if x < 100 then Inr x else Inl (thrown x)),
      move_ctor = (\<lambda>x. if x < 100 then Inr (x, x) else Inl (thrown x)),
      copy_assign = (\<lambda>d x. if x < 100 then Inr x else Inl (thrown x)),
      move_assign = (\<lambda>d x. Inr (x, x))\<rparr>"

text \<open>A vector that holds the values \<open>xs\<close> in a buffer of \<open>cap\<close> slots.\<close>

definition mk_vector :: "'a list \<Rightarrow> nat \<Rightarrow> 'a Vector" where
  "mk_vector xs cap =
     \<lparr>data_m = \<lparr>buffer_m = map Some xs @ replicate (cap - length xs) None, capacity_m = cap\<rparr>,
      size_m = length xs\<rparr>"

section \<open>Observations on traces and runs\<close>

text \<open>
  A call reallocates when its trace holds an \<open>operator new\<close>. \<open>PushBack_all\<close> pushes the
  values of a list one after the other and collects the capacity seen after each push.
\<close>

fun is_OperatorNew :: "event \<Rightarrow> bool" where
  "is_OperatorNew (OperatorNew n) = True"
| "is_OperatorNew (OperatorDelete st n) = False"
| "is_OperatorNew (Destructor st i l) = False"

definition reallocates :: "event list \<Rightarrow> bool" where
  "reallocates evs = list_ex is_OperatorNew evs"

fun PushBack_all :: "'a T_ops \<Rightarrow> 'a Vector \<Rightarrow> 'a list \<Rightarrow> nat list \<times> 'a Vector" where
  "PushBack_all T v [] = ([], v)"
| "PushBack_all T v (x # xs) =
     (case PushBack T v (Object x) of
        (r, v', evs) \<Rightarrow>
          (case PushBack_all T v' xs of (cs, v'') \<Rightarrow> (Capacity v' # cs, v'')))"

text \<open>
  \<open>relocation_ok T xs\<close>: relocating objects with the values \<open>xs\<close> does not throw and gives
  objects with the same values, for the relocation that \<open>if constexpr\<close> selects for \<open>T\<close>.
\<close>

definition relocation_ok :: "'a T_ops \<Rightarrow> 'a list \<Rightarrow> bool" where
  "relocation_ok T xs =
     (if nothrow_move_constructible T \<or> \<not> copy_constructible T
      then list_all (\<lambda>x. case move_ctor T x of Inl e \<Rightarrow> False | Inr (y, r) \<Rightarrow> y = x) xs
      else list_all (\<lambda>x. copy_ctor T x = Inr x) xs)"

section \<open>Facts about the library algorithms\<close>

lemma destroy_n_Suc_fst:
  "fst (destroy_n st b f (Suc n)) = fst (destroy_n st (b[f := None]) (Suc f) n)"
  by (simp split: prod.splits)

lemma destroy_n_length: "length (fst (destroy_n st b f n)) = length b"
proof (induction n arbitrary: b f)
  case 0
  then show ?case by simp
next
  case (Suc n)
  show ?case using Suc.IH[of "b[f := None]" "Suc f"] by (simp only: destroy_n_Suc_fst length_list_update)
qed

lemma destroy_n_nth:
  "j < length b \<Longrightarrow> fst (destroy_n st b f n) ! j = (if f \<le> j \<and> j < f + n then None else b ! j)"
proof (induction n arbitrary: b f)
  case 0
  then show ?case by auto
next
  case (Suc n)
  with Suc.IH[of "b[f := None]" "Suc f"] show ?case
    unfolding destroy_n_Suc_fst by (auto simp: nth_list_update)
qed

lemma destroy_n_Suc_snd:
  "snd (destroy_n st b f (Suc n)) =
     Destructor st f (is_live b f) # snd (destroy_n st (b[f := None]) (Suc f) n)"
  by (simp split: prod.splits)

lemma destroy_n_events:
  "snd (destroy_n st b f n) = map (\<lambda>i. Destructor st i (is_live b i)) [f..<f + n]"
proof (induction n arbitrary: b f)
  case 0
  then show ?case by simp
next
  case (Suc n)
  have "map (\<lambda>i. Destructor st i (is_live (b[f := None]) i)) [Suc f..<Suc f + n]
                 = map (\<lambda>i. Destructor st i (is_live b i)) [Suc f..<Suc f + n]"
    by (auto simp: is_live_def)
  moreover have "[f..<f + Suc n] = f # [Suc f..<Suc f + n]"
    by (simp add: upt_rec)
  ultimately show ?case using Suc.IH[of "b[f := None]" "Suc f"]
    by (simp only: destroy_n_Suc_snd list.map)
qed

lemma list_all_take_iff:
  "n \<le> length xs \<Longrightarrow> list_all P (take n xs) \<longleftrightarrow> (\<forall>i<n. P (xs ! i))"
  by (simp add: list_all_length)

lemma list_all_drop_iff:
  "n \<le> length xs \<Longrightarrow> list_all P (drop n xs) \<longleftrightarrow> (\<forall>i. n \<le> i \<and> i < length xs \<longrightarrow> P (xs ! i))"
proof
  assume n: "n \<le> length xs" and h: "list_all P (drop n xs)"
  show "\<forall>i. n \<le> i \<and> i < length xs \<longrightarrow> P (xs ! i)"
  proof (intro allI impI)
    fix i assume i: "n \<le> i \<and> i < length xs"
    then have "i - n < length xs - n" by arith
    then have "i - n < length (drop n xs)" by simp
    with h have "P (drop n xs ! (i - n))" by (simp add: list_all_length)
    with i n show "P (xs ! i)" by simp
  qed
next
  assume n: "n \<le> length xs" and h: "\<forall>i. n \<le> i \<and> i < length xs \<longrightarrow> P (xs ! i)"
  show "list_all P (drop n xs)"
    unfolding list_all_length
  proof (intro allI impI)
    fix i assume "i < length (drop n xs)"
    then have "n \<le> n + i \<and> n + i < length xs" by simp
    with h have "P (xs ! (n + i))" by blast
    with n show "P (drop n xs ! i)" by simp
  qed
qed

lemma Vector_inv_iff:
  "Vector_inv v \<longleftrightarrow>
     length (buffer_m (data_m v)) = capacity_m (data_m v) \<and> size_m v \<le> capacity_m (data_m v) \<and>
     (\<forall>i<size_m v. buffer_m (data_m v) ! i \<noteq> None) \<and>
     (\<forall>i. size_m v \<le> i \<and> i < capacity_m (data_m v) \<longrightarrow> buffer_m (data_m v) ! i = None)"
proof (cases "length (buffer_m (data_m v)) = capacity_m (data_m v) \<and> size_m v \<le> capacity_m (data_m v)")
  case True
  then have "size_m v \<le> length (buffer_m (data_m v))" by simp
  from list_all_take_iff[OF this] list_all_drop_iff[OF this] True
  show ?thesis unfolding Vector_inv_def by simp
next
  case False
  then show ?thesis unfolding Vector_inv_def by auto
qed

lemma uninit_copy_loop_ok:
  assumes "\<forall>i. first \<le> i \<and> i < first + n \<longrightarrow>
             i < length src \<and> (\<exists>x. src ! i = Some x \<and> copy_ctor T x = Inr (c x))"
    and "cur + n \<le> length dst"
  shows "\<exists>dst'. uninit_copy_loop T src first n dst cur = (None, cur + n, dst') \<and>
           length dst' = length dst \<and>
           (\<forall>j<length dst. dst' ! j =
              (if cur \<le> j \<and> j < cur + n then Some (c (the (src ! (first + (j - cur)))))
               else dst ! j))"
  using assms
proof (induction n arbitrary: first dst cur)
  case 0
  then show ?case by auto
next
  case (Suc n)
  have "first < length src \<and> (\<exists>x. src ! first = Some x \<and> copy_ctor T x = Inr (c x))"
    using Suc.prems(1)[rule_format, of first] by simp
  then obtain x where x: "first < length src" "src ! first = Some x"
      "copy_ctor T x = Inr (c x)"
    by blast
  have cl: "cur < length dst" using Suc.prems(2) by simp
  have "\<forall>i. Suc first \<le> i \<and> i < Suc first + n \<longrightarrow>
             i < length src \<and> (\<exists>x. src ! i = Some x \<and> copy_ctor T x = Inr (c x))"
    using Suc.prems(1) by simp
  moreover have "Suc cur + n \<le> length (dst[cur := Some (c x)])" using Suc.prems(2) by simp
  ultimately have "\<exists>dst'. uninit_copy_loop T src (Suc first) n (dst[cur := Some (c x)]) (Suc cur)
        = (None, Suc cur + n, dst') \<and> length dst' = length (dst[cur := Some (c x)]) \<and>
     (\<forall>j<length (dst[cur := Some (c x)]). dst' ! j =
              (if Suc cur \<le> j \<and> j < Suc cur + n then Some (c (the (src ! (Suc first + (j - Suc cur)))))
               else dst[cur := Some (c x)] ! j))"
    by (rule Suc.IH)
  then
  obtain dst' where d: "uninit_copy_loop T src (Suc first) n (dst[cur := Some (c x)]) (Suc cur)
        = (None, Suc cur + n, dst')" "length dst' = length dst"
     "\<forall>j<length dst. dst' ! j =
              (if Suc cur \<le> j \<and> j < Suc cur + n then Some (c (the (src ! (Suc first + (j - Suc cur)))))
               else dst[cur := Some (c x)] ! j)"
    by auto
  have "uninit_copy_loop T src first (Suc n) dst cur = (None, cur + Suc n, dst')"
    using x d(1) cl by (simp add: read_slot_def construct_at_def)
  moreover have "\<forall>j<length dst. dst' ! j =
              (if cur \<le> j \<and> j < cur + Suc n then Some (c (the (src ! (first + (j - cur)))))
               else dst ! j)"
  proof (intro allI impI)
    fix j assume j: "j < length dst"
    show "dst' ! j = (if cur \<le> j \<and> j < cur + Suc n then Some (c (the (src ! (first + (j - cur)))))
               else dst ! j)"
    proof (cases "j = cur")
      case True
      then show ?thesis using d(3) j x by simp
    next
      case False
      then have "cur \<le> j \<Longrightarrow> Suc first + (j - Suc cur) = first + (j - cur)" by arith
      then show ?thesis using d(3) j False by (auto simp: nth_list_update)
    qed
  qed
  ultimately show ?case using d(2) by blast
qed

lemma uninit_copy_loop_throws:
  assumes "\<forall>i. first \<le> i \<and> i < first + m \<longrightarrow>
             i < length src \<and> (\<exists>x y. src ! i = Some x \<and> copy_ctor T x = Inr y)"
    and "first + m < length src" "src ! (first + m) = Some x" "copy_ctor T x = Inl e" "m < n"
    and "cur + m \<le> length dst"
  shows "\<exists>dst'. uninit_copy_loop T src first n dst cur = (Some e, cur + m, dst') \<and>
           length dst' = length dst \<and>
           (\<forall>j<length dst. (cur \<le> j \<and> j < cur + m \<longrightarrow> dst' ! j \<noteq> None) \<and>
                           (\<not> (cur \<le> j \<and> j < cur + m) \<longrightarrow> dst' ! j = dst ! j))"
  using assms
proof (induction m arbitrary: first n dst cur)
  case 0
  then obtain n' where n: "n = Suc n'" by (cases n) auto
  from 0 show ?case unfolding n by (auto simp: read_slot_def)
next
  case (Suc m)
  then obtain n' where n: "n = Suc n'" "m < n'" by (cases n) auto
  have "first < length src \<and> (\<exists>x y. src ! first = Some x \<and> copy_ctor T x = Inr y)"
    using Suc.prems(1)[rule_format, of first] by simp
  then obtain x0 y0 where x: "first < length src" "src ! first = Some x0"
      "copy_ctor T x0 = Inr y0"
    by blast
  have 1: "\<forall>i. Suc first \<le> i \<and> i < Suc first + m \<longrightarrow>
             i < length src \<and> (\<exists>x y. src ! i = Some x \<and> copy_ctor T x = Inr y)"
    using Suc.prems(1) by simp
  have 2: "Suc first + m < length src" "src ! (Suc first + m) = Some x"
    using Suc.prems(2,3) by simp_all
  have 3: "Suc cur + m \<le> length (dst[cur := Some y0])" using Suc.prems(6) by simp
  have cl: "cur < length dst" using Suc.prems(6) by simp
  from Suc.IH[OF 1 2 Suc.prems(4) n(2) 3]
  obtain dst' where d:
     "uninit_copy_loop T src (Suc first) n' (dst[cur := Some y0]) (Suc cur) = (Some e, Suc cur + m, dst')"
     "length dst' = length dst"
     "\<forall>j<length dst. (Suc cur \<le> j \<and> j < Suc cur + m \<longrightarrow> dst' ! j \<noteq> None) \<and>
                           (\<not> (Suc cur \<le> j \<and> j < Suc cur + m) \<longrightarrow> dst' ! j = dst[cur := Some y0] ! j)"
    by auto
  have "uninit_copy_loop T src first n dst cur = (Some e, cur + Suc m, dst')"
    unfolding n using x d(1) cl by (simp add: read_slot_def construct_at_def)
  moreover have "\<forall>j<length dst. (cur \<le> j \<and> j < cur + Suc m \<longrightarrow> dst' ! j \<noteq> None) \<and>
                           (\<not> (cur \<le> j \<and> j < cur + Suc m) \<longrightarrow> dst' ! j = dst ! j)"
  proof (intro allI impI)
    fix j assume j: "j < length dst"
    show "(cur \<le> j \<and> j < cur + Suc m \<longrightarrow> dst' ! j \<noteq> None) \<and>
                           (\<not> (cur \<le> j \<and> j < cur + Suc m) \<longrightarrow> dst' ! j = dst ! j)"
    proof (cases "j = cur")
      case True
      then show ?thesis using d(3) j by simp
    next
      case False
      then show ?thesis using d(3)[rule_format, OF j] j by (auto simp: nth_list_update)
    qed
  qed
  ultimately show ?case using d(2) by blast
qed

lemma uninitialized_copy_n_throws:
  assumes "\<forall>i. first \<le> i \<and> i < first + m \<longrightarrow>
             i < length src \<and> (\<exists>x y. src ! i = Some x \<and> copy_ctor T x = Inr y)"
    and "first + m < length src" "src ! (first + m) = Some x" "copy_ctor T x = Inl e" "m < n"
    and "cur + m \<le> length dst"
  shows "\<exists>dst'. uninitialized_copy_n T st src first n dst cur =
            (Some e, dst', map (\<lambda>i. Destructor st i True) [cur..<cur + m]) \<and>
           length dst' = length dst \<and>
           (\<forall>j<length dst. dst' ! j = (if cur \<le> j \<and> j < cur + m then None else dst ! j))"
proof -
  from uninit_copy_loop_throws[OF assms(1-6)]
  obtain d where d: "uninit_copy_loop T src first n dst cur = (Some e, cur + m, d)"
     "length d = length dst"
     "\<forall>j<length dst. (cur \<le> j \<and> j < cur + m \<longrightarrow> d ! j \<noteq> None) \<and>
                           (\<not> (cur \<le> j \<and> j < cur + m) \<longrightarrow> d ! j = dst ! j)"
    by blast
  have ev: "snd (destroy_n st d cur m) = map (\<lambda>i. Destructor st i True) [cur..<cur + m]"
    unfolding destroy_n_events using d(2,3) assms(6) by (auto simp: is_live_def)
  have "uninitialized_copy_n T st src first n dst cur =
          (Some e, fst (destroy_n st d cur m), snd (destroy_n st d cur m))"
    unfolding uninitialized_copy_n_def d(1) by (simp split: prod.splits)
  moreover have "length (fst (destroy_n st d cur m)) = length dst"
    by (simp add: destroy_n_length d(2))
  moreover have "\<forall>j<length dst. fst (destroy_n st d cur m) ! j =
                   (if cur \<le> j \<and> j < cur + m then None else dst ! j)"
    using d(2,3) by (simp add: destroy_n_nth)
  ultimately show ?thesis using ev by simp
qed

lemma elems_nth:
  assumes "Vector_inv v" "i < size_m v"
  shows "i < length (buffer_m (data_m v))" "buffer_m (data_m v) ! i = Some (elems v ! i)"
proof -
  from assms show 1: "i < length (buffer_m (data_m v))" by (simp add: Vector_inv_iff)
  from assms have "buffer_m (data_m v) ! i \<noteq> None" by (simp add: Vector_inv_iff)
  then show "buffer_m (data_m v) ! i = Some (elems v ! i)"
    using 1 assms(2) by (auto simp: elems_def)
qed

lemma live_count_all_None:
  "(\<forall>j<length b. b ! j = None) \<Longrightarrow> live_count b = 0"
  by (auto simp: live_count_def filter_empty_conv in_set_conv_nth)

section \<open>Runs of the model\<close>

text \<open>
  An argument that refers to an element of the vector. With spare capacity the constructor
  of the new element runs after the tail has been shifted, so \<open>Insert(begin(), v[2])\<close> into
  \<open>[1, 2, 3]\<close> inserts the value that slot 2 holds by then, which is 2. In the reallocating
  branch the constructor runs first, and the value inserted is 3.
\<close>

lemma Insert_of_own_element:
  "Insert int_like (mk_vector [1, 2, 3] 4) 0 (Element 2) =
     (Inr 0, mk_vector [2, 1, 2, 3] 4, [Destructor data_mem 0 True]) \<and>
   Insert int_like (mk_vector [1, 2, 3] 3) 0 (Element 2) =
     (Inr 0, mk_vector [3, 1, 2, 3] 6,
      [OperatorNew 6, Destructor data_mem 0 True, Destructor data_mem 1 True,
       Destructor data_mem 2 True, OperatorDelete data_mem 0])"
  by code_simp

text \<open>
  A request whose size in bytes wraps. For an element of 8 bytes, \<open>2 ^ 61 + 1\<close> objects are
  requested as 8 bytes, a block of one slot; \<open>Reserve\<close> then constructs past its end.
\<close>

lemma Allocate_wraps:
  "Allocate unique_ptr_like (2 ^ 61 + 1) = Inr [None] \<and>
   \<not> Allocate_ok unique_ptr_like (2 ^ 61 + 1) \<and>
   Reserve unique_ptr_like (mk_vector [Some 1, Some 2] 2) (2 ^ 61 + 1) =
     (Inl raw_access,
      \<lparr>data_m = \<lparr>buffer_m = [Some None, Some (Some 2)], capacity_m = 2\<rparr>, size_m = 2\<rparr>,
      [OperatorNew (2 ^ 61 + 1), Destructor new_mem 0 True, OperatorDelete new_mem 0])"
  by code_simp

text \<open>A vector of no elements is built without a call of \<open>operator new\<close>.\<close>

lemma empty_allocates_nothing:
  "Vector_copy int_like Vector_default = (Inr Vector_default, []) \<and>
   Vector_sized int_like 0 = (Inr Vector_default, [])"
  by code_simp

section \<open>The claims\<close>

subsection \<open>An exception during Reserve\<close>

lemma RawMemory_new_ok:
  assumes "n \<noteq> 0 \<longrightarrow> Allocate_ok T n"
  shows "RawMemory_new T n = Inr \<lparr>buffer_m = replicate n None, capacity_m = n\<rparr>"
proof (cases "n = 0")
  case True
  then show ?thesis by (simp add: RawMemory_new_def Allocate_def)
next
  case False
  with assms have ok: "0 < sizeof_T T" "n * sizeof_T T < size_t_range"
    "operator_new_ok T (n * sizeof_T T)"
    by (simp_all add: Allocate_ok_def)
  then have "(n * sizeof_T T) mod size_t_range = n * sizeof_T T"
    "n * sizeof_T T div sizeof_T T = n"
    by simp_all
  with False ok(3) show ?thesis by (simp add: RawMemory_new_def Allocate_def)
qed

text \<open>
  Claim C4. \<open>Reserve(c)\<close> with \<open>c\<close> above the capacity, for an element type that is relocated
  by copy, when the request for \<open>c\<close> objects does not wrap around \<open>size_t\<close> and
  \<open>operator new\<close> grants it: if the \<open>k\<close>-th copy construction into the new buffer throws \<open>e\<close>
  (the first \<open>k - 1\<close> succeed), the call ends with \<open>e\<close>, the vector is the one it was (size,
  capacity and every slot), the trace holds exactly \<open>k - 1\<close> destructor calls, all on live
  objects of the new buffer, and the new buffer is released with no live object left in it.
\<close>

theorem Reserve_copy_throws:
  assumes "Vector_inv v" "Capacity v < c" "Allocate_ok T c"
    and "\<not> nothrow_move_constructible T" "copy_constructible T"
    and "0 < k" "k \<le> size_m v"
    and "\<forall>i<k - 1. \<exists>y. copy_ctor T (elems v ! i) = Inr y"
    and "copy_ctor T (elems v ! (k - 1)) = Inl e"
  shows "Reserve T v c =
           (Inl e, v, OperatorNew c # map (\<lambda>i. Destructor new_mem i True) [0..<k - 1]
                        @ [OperatorDelete new_mem 0])"
proof -
  let ?src = "buffer_m (data_m v)"
  have c0: "c \<noteq> 0" "\<not> c \<le> capacity_m (data_m v)" using assms(2) by (auto simp: Capacity_def)
  have new: "RawMemory_new T c = Inr \<lparr>buffer_m = replicate c None, capacity_m = c\<rparr>"
    using assms(3) by (simp add: RawMemory_new_ok)
  have ok: "\<forall>i. 0 \<le> i \<and> i < 0 + (k - 1) \<longrightarrow>
             i < length ?src \<and> (\<exists>x y. ?src ! i = Some x \<and> copy_ctor T x = Inr y)"
  proof (intro allI impI)
    fix i assume "0 \<le> i \<and> i < 0 + (k - 1)"
    then have i: "i < k - 1" "i < size_m v" using assms(7) by auto
    from elems_nth[OF assms(1) i(2)] assms(8) i(1)
    show "i < length ?src \<and> (\<exists>x y. ?src ! i = Some x \<and> copy_ctor T x = Inr y)" by auto
  qed
  have k1: "k - 1 < size_m v" using assms(6,7) by arith
  have sz: "size_m v \<le> c" using assms(1,2) by (simp add: Vector_inv_iff Capacity_def)
  from uninitialized_copy_n_throws[where first = 0 and m = "k - 1" and src = ?src and T = T
         and x = "elems v ! (k - 1)" and e = e and n = "size_m v"
         and dst = "replicate c None" and cur = 0 and st = new_mem, OF ok]
       elems_nth[OF assms(1) k1] assms(9) k1 sz
  obtain d where d: "uninitialized_copy_n T new_mem ?src 0 (size_m v) (replicate c None) 0 =
            (Some e, d, map (\<lambda>i. Destructor new_mem i True) [0..<k - 1])"
     "length d = c" "\<forall>j<c. d ! j = None"
    by auto
  have "live_count d = 0" using d(2,3) by (simp add: live_count_all_None)
  then show ?thesis
    unfolding Reserve_def using c0 new assms(4,5) d(1)
    by (simp add: RawMemory_dtor_def Allocate_trace_def)
qed

text \<open>
  The scenario of the specification: ten elements, the copy of the element at index 7 (the
  eighth copy) throws during \<open>Reserve(32)\<close>, and seven copies are destroyed.
\<close>

theorem Reserve_copy_throws_witness:
  "Reserve throwing_copy (mk_vector [0, 1, 2, 3, 4, 5, 6, 107, 8, 9] 10) 32 =
     (Inl (thrown 107), mk_vector [0, 1, 2, 3, 4, 5, 6, 107, 8, 9] 10,
      [OperatorNew 32, Destructor new_mem 0 True, Destructor new_mem 1 True,
       Destructor new_mem 2 True, Destructor new_mem 3 True, Destructor new_mem 4 True,
       Destructor new_mem 5 True, Destructor new_mem 6 True, OperatorDelete new_mem 0])"
proof -
  let ?v = "mk_vector [0, 1, 2, 3, 4, 5, 6, 107, 8, 9::nat] 10"
  have 1: "Vector_inv ?v" by (simp add: Vector_inv_def mk_vector_def)
  have 2: "Capacity ?v < 32" by (simp add: Capacity_def mk_vector_def)
  have 3: "Allocate_ok throwing_copy 32" "\<not> nothrow_move_constructible throwing_copy"
     "copy_constructible throwing_copy"
    by (simp_all add: throwing_copy_def Allocate_ok_def size_t_range_def)
  have 4: "0 < (8::nat)" "8 \<le> size_m ?v" by (simp_all add: mk_vector_def)
  have 5: "\<forall>i<8 - 1. \<exists>y. copy_ctor throwing_copy (elems ?v ! i) = Inr y"
    by (simp add: mk_vector_def elems_def throwing_copy_def less_Suc_eq numeral_eq_Suc nth_Cons split: nat.splits)
  have 6: "copy_ctor throwing_copy (elems ?v ! (8 - 1)) = Inl (thrown 107)"
    by (simp add: mk_vector_def elems_def throwing_copy_def)
  have 7: "[0..<8 - 1] = [0, 1, 2, 3, 4, 5, 6::nat]" by (simp add: upt_rec)
  show ?thesis using Reserve_copy_throws[OF 1 2 3 4 5 6] unfolding 7 by simp
qed

subsection \<open>The capacity never shrinks\<close>

lemma Reserve_capacity:
  "capacity_m (data_m v) \<le> capacity_m (data_m (fst (snd (Reserve T v c))))"
proof (cases "c \<le> capacity_m (data_m v)")
  case True
  then show ?thesis by (simp add: Reserve_def)
next
  case False
  show ?thesis
  proof (cases "RawMemory_new T c")
    case (Inl e)
    with False show ?thesis by (simp add: Reserve_def)
  next
    case (Inr new_data)
    then have cap: "capacity_m new_data = c"
      by (auto simp: RawMemory_new_def split: sum.splits)
    obtain r src dst evs where rel:
      "(if nothrow_move_constructible T \<or> \<not> copy_constructible T
        then uninitialized_move_n T new_mem (buffer_m (data_m v)) 0 (size_m v)
               (buffer_m new_data) 0
        else (case uninitialized_copy_n T new_mem (buffer_m (data_m v)) 0 (size_m v)
                     (buffer_m new_data) 0 of
                (r, dst, evs) \<Rightarrow> (r, buffer_m (data_m v), dst, evs))) = (r, src, dst, evs)"
      by (metis prod_cases4)
    show ?thesis
    proof (cases r)
      case None
      with False Inr rel cap show ?thesis
        unfolding Reserve_def by (simp add: RawMemory_Swap_def split: prod.splits)
    next
      case (Some e)
      with False Inr rel show ?thesis
        unfolding Reserve_def by (simp split: prod.splits)
    qed
  qed
qed

lemma EmplaceBack_return_capacity:
  "capacity_m (data_m (fst (snd (EmplaceBack_return v evs)))) = capacity_m (data_m v)"
  unfolding EmplaceBack_return_def by (simp split: sum.splits)

lemma EmplaceBack_capacity:
  "capacity_m (data_m v) \<le> capacity_m (data_m (fst (snd (EmplaceBack T v args))))"
proof -
  consider (empty) "size_m v = 0"
    | (full) "size_m v \<noteq> 0" "size_m v = Capacity v"
    | (spare) "size_m v \<noteq> 0" "size_m v \<noteq> Capacity v"
    by blast
  then show ?thesis
  proof cases
    case empty
    obtain r v' evs where res: "Reserve T v 1 = (r, v', evs)" by (metis prod_cases3)
    with Reserve_capacity[of v T 1] have le: "capacity_m (data_m v) \<le> capacity_m (data_m v')"
      by simp
    show ?thesis
    proof (cases r)
      case (Inl e)
      with empty res le show ?thesis by (simp add: EmplaceBack_def)
    next
      case (Inr u)
      show ?thesis
      proof (cases "args (buffer_m (data_m v'))")
        case (Inl e)
        with empty res le Inr show ?thesis by (simp add: EmplaceBack_def)
      next
        case xb: (Inr xb)
        obtain x b where xb': "xb = (x, b)" by (metis surj_pair)
        with empty res le Inr xb show ?thesis
          unfolding EmplaceBack_def
          by (cases "construct_at b 0 x") (simp_all add: EmplaceBack_return_capacity)
      qed
    qed
  next
    case full
    show ?thesis
    proof (cases "RawMemory_new T (size_m v * 2)")
      case (Inl e)
      with full show ?thesis by (simp add: EmplaceBack_def)
    next
      case (Inr new_data)
      then have cap: "capacity_m new_data = size_m v * 2"
        by (auto simp: RawMemory_new_def split: sum.splits)
      show ?thesis
      proof (cases "args (buffer_m (data_m v))")
        case (Inl e)
        with full Inr show ?thesis by (simp add: EmplaceBack_def)
      next
        case xb: (Inr xb)
        obtain x b where xb': "xb = (x, b)" by (metis surj_pair)
        show ?thesis
        proof (cases "construct_at (buffer_m new_data) (size_m v) x")
          case (Inl e)
          with full Inr xb xb' show ?thesis by (simp add: EmplaceBack_def)
        next
          case nb: (Inr nb)
          obtain r src dst evs where rel:
            "(if nothrow_move_constructible T \<or> \<not> copy_constructible T
              then uninitialized_move_n T new_mem b 0 (size_m v) nb 0
              else (case uninitialized_copy_n T new_mem b 0 (size_m v) nb 0 of
                      (r, dst, evs) \<Rightarrow> (r, b, dst, evs))) = (r, src, dst, evs)"
            by (metis prod_cases4)
          show ?thesis
          proof (cases r)
            case None
            with full Inr xb xb' nb rel cap show ?thesis
              unfolding EmplaceBack_def
              by (simp add: RawMemory_Swap_def EmplaceBack_return_capacity Capacity_def
                    split: prod.splits del: disj_not2 split del: if_split)
          next
            case (Some e)
            with full Inr xb xb' nb rel show ?thesis
              unfolding EmplaceBack_def
              by (simp split: prod.splits del: disj_not2 split del: if_split)
          qed
        qed
      qed
    qed
  next
    case spare
    show ?thesis
    proof (cases "RawMemory_plus (data_m v) (size_m v)")
      case (Inl e)
      with spare show ?thesis by (simp add: EmplaceBack_def)
    next
      case (Inr p)
      show ?thesis
      proof (cases "args (buffer_m (data_m v))")
        case (Inl e)
        with spare Inr show ?thesis by (simp add: EmplaceBack_def)
      next
        case xb: (Inr xb)
        obtain x b where xb': "xb = (x, b)" by (metis surj_pair)
        with spare Inr xb show ?thesis
          unfolding EmplaceBack_def
          by (cases "construct_at b p x") (simp_all add: EmplaceBack_return_capacity)
      qed
    qed
  qed
qed

lemma Emplace_capacity:
  "capacity_m (data_m v) \<le> capacity_m (data_m (fst (snd (Emplace T v pos args))))"
proof -
  consider (bad) "\<not> pos \<le> size_m v"
    | (at_end) "pos = size_m v"
    | (full) "pos < size_m v" "size_m v \<ge> Capacity v"
    | (spare) "pos < size_m v" "\<not> size_m v \<ge> Capacity v"
    by linarith
  then show ?thesis
  proof cases
    case bad
    then show ?thesis by (simp add: Emplace_def)
  next
    case at_end
    then show ?thesis by (simp add: Emplace_def EmplaceBack_capacity)
  next
    case full
    show ?thesis
    proof (cases "RawMemory_new T (size_m v * 2)")
      case (Inl e)
      with full show ?thesis by (simp add: Emplace_def)
    next
      case (Inr new_data)
      then have cap: "capacity_m new_data = size_m v * 2"
        by (auto simp: RawMemory_new_def split: sum.splits)
      show ?thesis
      proof (cases "args (buffer_m (data_m v))")
        case (Inl e)
        with full Inr show ?thesis by (simp add: Emplace_def)
      next
        case xb: (Inr xb)
        obtain x b where xb': "xb = (x, b)" by (metis surj_pair)
        show ?thesis
        proof (cases "construct_at (buffer_m new_data) pos x")
          case (Inl e)
          with full Inr xb xb' show ?thesis by (simp add: Emplace_def)
        next
          case nb: (Inr nb)
          obtain r src dst evs where rel:
            "Emplace_relocate T b (size_m v) pos nb = (r, src, dst, evs)"
            by (metis prod_cases4)
          show ?thesis
          proof (cases r)
            case None
            with full Inr xb xb' nb rel cap show ?thesis
              unfolding Emplace_def
              by (simp add: RawMemory_Swap_def Capacity_def split: prod.splits)
          next
            case (Some e)
            with full Inr xb xb' nb rel show ?thesis
              unfolding Emplace_def by (simp split: prod.splits)
          qed
        qed
      qed
    qed
  next
    case spare
    obtain r b evs where sh:
      "Emplace_shift T (buffer_m (data_m v)) (size_m v) pos args = (r, b, evs)"
      by (metis prod_cases3)
    with spare show ?thesis
      unfolding Emplace_def by (cases r) (simp_all split: prod.splits)
  qed
qed

lemma Resize_capacity:
  "capacity_m (data_m v) \<le> capacity_m (data_m (fst (snd (Resize T v n))))"
proof (cases "size_m v < n")
  case False
  then show ?thesis by (simp add: Resize_def split: prod.splits)
next
  case True
  obtain r v' evs where res:
    "(if capacity_m (data_m v) < n then Reserve T v n else (Inr (), v, [])) = (r, v', evs)"
    by (metis prod_cases3)
  have le: "capacity_m (data_m v) \<le> capacity_m (data_m v')"
    using res Reserve_capacity[of v T n] by (auto split: if_splits)
  show ?thesis
  proof (cases r)
    case (Inl e)
    with True res le show ?thesis by (simp add: Resize_def)
  next
    case (Inr u)
    obtain r' dst evs' where vc:
      "uninitialized_value_construct_n T
         (if capacity_m (data_m v) < n then new_mem else data_mem)
         (buffer_m (data_m v')) (size_m v') (n - size_m v') = (r', dst, evs')"
      by (metis prod_cases3)
    with True res le Inr show ?thesis
      unfolding Resize_def by (cases r') simp_all
  qed
qed

lemma Erase_capacity:
  "capacity_m (data_m (fst (snd (Erase T v pos)))) = capacity_m (data_m v)"
proof (cases "pos < size_m v")
  case False
  then show ?thesis by (simp add: Erase_def)
next
  case True
  obtain r b where mv:
    "std_move T (buffer_m (data_m v)) (pos + 1) (size_m v - (pos + 1)) pos = (r, b)"
    by (metis surj_pair)
  with True show ?thesis
    unfolding Erase_def
    by (cases r; cases "RawMemory_at (data_m v) pos") (simp_all split: prod.splits)
qed

lemma PopBack_capacity:
  "capacity_m (data_m (fst (snd (PopBack v)))) = capacity_m (data_m v)"
  unfolding PopBack_def by (simp split: prod.splits)

lemma Vector_copy_capacity:
  "Vector_copy T other = (Inr w, evs) \<Longrightarrow> capacity_m (data_m w) = size_m other"
  unfolding Vector_copy_def RawMemory_new_def
  by (cases "Allocate T (size_m other)")
     (auto split: prod.splits option.splits if_splits)

lemma copy_assign_op_capacity:
  "capacity_m (data_m v) \<le> capacity_m (data_m (fst (snd (copy_assign_op T v rhs'))))"
proof (cases rhs')
  case This
  then show ?thesis by (simp add: copy_assign_op_def)
next
  case (Other rhs)
  consider (grow) "size_m rhs > capacity_m (data_m v)"
    | (more) "\<not> size_m rhs > capacity_m (data_m v)" "size_m rhs > size_m v"
    | (fewer) "\<not> size_m rhs > capacity_m (data_m v)" "\<not> size_m rhs > size_m v"
    by blast
  then show ?thesis
  proof cases
    case grow
    obtain r evs where c: "Vector_copy T rhs = (r, evs)" by (metis surj_pair)
    show ?thesis
    proof (cases r)
      case (Inl e)
      with Other grow c show ?thesis by (simp add: copy_assign_op_def)
    next
      case (Inr w)
      with c have "capacity_m (data_m w) = size_m rhs" by (simp add: Vector_copy_capacity)
      with Other grow c Inr show ?thesis
        by (simp add: copy_assign_op_def Swap_def RawMemory_Swap_def)
    qed
  next
    case more
    obtain r dst where c:
      "std_copy T (buffer_m (data_m rhs)) 0 (size_m v) (buffer_m (data_m v)) 0 = (r, dst)"
      by (metis surj_pair)
    obtain r' dst' evs where u:
      "uninitialized_copy_n T data_mem (buffer_m (data_m rhs)) (size_m v)
         (size_m rhs - size_m v) dst (size_m v) = (r', dst', evs)"
      by (metis prod_cases3)
    from Other more c u show ?thesis
      unfolding copy_assign_op_def by (cases r; cases r') simp_all
  next
    case fewer
    obtain r dst where c:
      "std_copy T (buffer_m (data_m rhs)) 0 (size_m rhs) (buffer_m (data_m v)) 0 = (r, dst)"
      by (metis surj_pair)
    from Other fewer c show ?thesis
      unfolding copy_assign_op_def by (cases r) (simp_all split: prod.splits)
  qed
qed

text \<open>
  Claim C10. Whatever the vector, the arguments and the outcome (normal return, exception
  or failed assertion), the capacity after \<open>Reserve\<close>, \<open>Resize\<close>, \<open>PushBack\<close> (both
  overloads), \<open>EmplaceBack\<close>, \<open>Emplace\<close>, \<open>Insert\<close> (both overloads), \<open>Erase\<close>, \<open>PopBack\<close>
  and copy assignment is at least the capacity before.
\<close>

theorem capacity_monotone:
  "Capacity v \<le> Capacity (fst (snd (Reserve T v c))) \<and>
   Capacity v \<le> Capacity (fst (snd (Resize T v n))) \<and>
   Capacity v \<le> Capacity (fst (snd (PushBack T v x))) \<and>
   Capacity v \<le> Capacity (fst (snd (PushBack_rvalue T v x))) \<and>
   Capacity v \<le> Capacity (fst (snd (EmplaceBack T v args))) \<and>
   Capacity v \<le> Capacity (fst (snd (Emplace T v pos args))) \<and>
   Capacity v \<le> Capacity (fst (snd (Insert T v pos x))) \<and>
   Capacity v \<le> Capacity (fst (snd (Insert_rvalue T v pos x))) \<and>
   Capacity v \<le> Capacity (fst (snd (Erase T v pos))) \<and>
   Capacity v \<le> Capacity (fst (snd (PopBack v))) \<and>
   Capacity v \<le> Capacity (fst (snd (copy_assign_op T v rhs')))"
proof -
  have pb: "fst (snd (PushBack T v x)) = fst (snd (EmplaceBack T v (copy_from T x)))"
    by (simp add: PushBack_def split: prod.splits)
  have pbr: "fst (snd (PushBack_rvalue T v x))
               = fst (snd (EmplaceBack T v (move_from T x)))"
    by (simp add: PushBack_rvalue_def split: prod.splits)
  show ?thesis
    unfolding Capacity_def pb pbr Insert_def Insert_rvalue_def
    by (simp add: Reserve_capacity Resize_capacity EmplaceBack_capacity Emplace_capacity
          Erase_capacity PopBack_capacity copy_assign_op_capacity)
qed

theorem capacity_monotone_witness:
  "Capacity (mk_vector [1, 2::nat] 2) \<le> Capacity (fst (snd (Reserve int_like (mk_vector [1, 2::nat] 2) 5))) \<and>
   Capacity (fst (snd (Reserve int_like (mk_vector [1, 2::nat] 2) 5))) = 5 \<and>
   Capacity (mk_vector [1, 2::nat] 2) \<le> Capacity (fst (snd (PopBack (mk_vector [1, 2::nat] 2)))) \<and>
   Capacity (fst (snd (PopBack (mk_vector [1, 2::nat] 2)))) = 2"
proof -
  have a: "Capacity (fst (snd (Reserve int_like (mk_vector [1, 2::nat] 2) 5))) = 5"
       "Capacity (fst (snd (PopBack (mk_vector [1, 2::nat] 2)))) = 2"
    by code_simp+
  have b: "Capacity (mk_vector [1, 2::nat] 2)
             \<le> Capacity (fst (snd (Reserve int_like (mk_vector [1, 2::nat] 2) 5)))"
       "Capacity (mk_vector [1, 2::nat] 2) \<le> Capacity (fst (snd (PopBack (mk_vector [1, 2::nat] 2))))"
    using capacity_monotone[of "mk_vector [1, 2::nat] 2" int_like 5 0 "Object 0"
            "emplace_value 0" 0 This]
    by blast+
  show ?thesis using a b by blast
qed

subsection \<open>Copy construction\<close>

lemma uninitialized_copy_n_ok:
  assumes "\<forall>i. first \<le> i \<and> i < first + n \<longrightarrow>
             i < length src \<and> (\<exists>x. src ! i = Some x \<and> copy_ctor T x = Inr (c x))"
    and "cur + n \<le> length dst"
  shows "\<exists>dst'. uninitialized_copy_n T st src first n dst cur = (None, dst', []) \<and>
           length dst' = length dst \<and>
           (\<forall>j<length dst. dst' ! j =
              (if cur \<le> j \<and> j < cur + n then Some (c (the (src ! (first + (j - cur)))))
               else dst ! j))"
proof -
  from uninit_copy_loop_ok[OF assms]
  obtain dst' where d: "uninit_copy_loop T src first n dst cur = (None, cur + n, dst')"
    "length dst' = length dst"
    "\<forall>j<length dst. dst' ! j =
              (if cur \<le> j \<and> j < cur + n then Some (c (the (src ! (first + (j - cur)))))
               else dst ! j)"
    by blast
  have "uninitialized_copy_n T st src first n dst cur = (None, dst', [])"
    by (simp add: uninitialized_copy_n_def d(1))
  with d(2,3) show ?thesis by blast
qed

lemma elems_length: "Vector_inv v \<Longrightarrow> length (elems v) = size_m v"
  by (simp add: elems_def Vector_inv_iff)

lemma elems_nth_in_set: "Vector_inv v \<Longrightarrow> i < size_m v \<Longrightarrow> elems v ! i \<in> set (elems v)"
  by (simp add: elems_length)

text \<open>
  Claim C8. Copy construction from a vector of size \<open>n\<close> whose elements can be copied
  (\<open>c x\<close> is the value of the copy of \<open>x\<close>) and for which the allocation succeeds (the
  request for \<open>n\<close> objects does not wrap, as it cannot for a source that holds \<open>n\<close> objects
  in memory, and \<open>operator new\<close> grants it) gives a vector of size \<open>n\<close> and capacity exactly
  \<open>n\<close>, whose elements are the copies of the source's elements, in order. The source is a
  \<open>const Vector&\<close> that the constructor only reads: \<open>Vector_copy\<close> has no result for it, it
  is the argument \<open>other\<close> as it was.
\<close>

theorem Vector_copy_copies:
  assumes "Vector_inv other"
    and "Size other \<noteq> 0 \<longrightarrow> Allocate_ok T (Size other)"
    and "\<forall>x\<in>set (elems other). copy_ctor T x = Inr (c x)"
  shows "\<exists>w evs. Vector_copy T other = (Inr w, evs) \<and> Size w = Size other \<and>
           Capacity w = Size other \<and> elems w = map c (elems other) \<and> Vector_inv w"
proof -
  let ?n = "size_m other"
  let ?src = "buffer_m (data_m other)"
  have new: "RawMemory_new T ?n = Inr \<lparr>buffer_m = replicate ?n None, capacity_m = ?n\<rparr>"
    using assms(2) by (simp add: RawMemory_new_ok Size_def)
  have ok: "\<forall>i. 0 \<le> i \<and> i < 0 + ?n \<longrightarrow>
             i < length ?src \<and> (\<exists>x. ?src ! i = Some x \<and> copy_ctor T x = Inr (c x))"
  proof (intro allI impI)
    fix i assume "0 \<le> i \<and> i < 0 + ?n"
    then have i: "i < ?n" by simp
    from elems_nth[OF assms(1) i] elems_nth_in_set[OF assms(1) i] assms(3)
    show "i < length ?src \<and> (\<exists>x. ?src ! i = Some x \<and> copy_ctor T x = Inr (c x))" by auto
  qed
  have "0 + ?n \<le> length (replicate ?n (None :: 'a option))" by simp
  from uninitialized_copy_n_ok[OF ok this, of new_mem]
  obtain dst where d:
    "uninitialized_copy_n T new_mem ?src 0 ?n (replicate ?n None) 0 = (None, dst, [])"
    "length dst = ?n" "\<forall>j<?n. dst ! j = Some (c (the (?src ! j)))"
    by auto
  let ?w = "\<lparr>data_m = \<lparr>buffer_m = dst, capacity_m = ?n\<rparr>, size_m = ?n\<rparr>"
  have res: "Vector_copy T other = (Inr ?w, Allocate_trace ?n)"
    unfolding Vector_copy_def uninitialized_move_n_const_def using new d(1) by simp
  have el: "elems ?w = map c (elems other)"
  proof (rule nth_equalityI)
    show "length (elems ?w) = length (map c (elems other))"
      using d(2) assms(1) by (simp add: elems_def Vector_inv_iff)
  next
    fix i assume "i < length (elems ?w)"
    then have i: "i < ?n" using d(2) by (simp add: elems_def)
    from elems_nth[OF assms(1) i] d(2,3) i assms(1)
    show "elems ?w ! i = map c (elems other) ! i"
      by (simp add: elems_def Vector_inv_iff)
  qed
  have inv: "Vector_inv ?w" using d(2,3) by (simp add: Vector_inv_iff)
  show ?thesis using res el inv by (simp add: Size_def Capacity_def)
qed

theorem Vector_copy_copies_witness:
  "Vector_copy int_like (mk_vector [5, 6, 7] 8) = (Inr (mk_vector [5, 6, 7] 3), [OperatorNew 3]) \<and>
   (\<exists>w evs. Vector_copy int_like (mk_vector [5, 6, 7] 8) = (Inr w, evs) \<and> Size w = 3 \<and>
      Capacity w = 3 \<and> elems w = [5, 6, 7] \<and> Vector_inv w)"
proof -
  let ?v = "mk_vector [5, 6, 7::nat] 8"
  have 1: "Vector_inv ?v" by code_simp
  have 2: "Size ?v \<noteq> 0 \<longrightarrow> Allocate_ok int_like (Size ?v)"
    by (simp add: int_like_def Allocate_ok_def size_t_range_def Size_def mk_vector_def)
  have 3: "\<forall>x\<in>set (elems ?v). copy_ctor int_like x = Inr (id x)" by (simp add: int_like_def)
  have 4: "Size ?v = 3" "elems ?v = [5, 6, 7]" by code_simp+
  have 5: "Vector_copy int_like ?v = (Inr (mk_vector [5, 6, 7] 3), [OperatorNew 3])" by code_simp
  show ?thesis using Vector_copy_copies[OF 1 2 3] 5 unfolding 4 by simp
qed

subsection \<open>Appending\<close>

lemma uninit_move_loop_ok:
  assumes "\<forall>i. first \<le> i \<and> i < first + n \<longrightarrow>
             i < length src \<and> (\<exists>x r. src ! i = Some x \<and> move_ctor T x = Inr (x, r))"
    and "cur + n \<le> length dst"
  shows "\<exists>src' dst'. uninit_move_loop T src first n dst cur = (None, cur + n, src', dst') \<and>
           length src' = length src \<and> length dst' = length dst \<and>
           (\<forall>j<length dst. dst' ! j =
              (if cur \<le> j \<and> j < cur + n then src ! (first + (j - cur)) else dst ! j)) \<and>
           (\<forall>i<length src. \<not> (first \<le> i \<and> i < first + n) \<longrightarrow> src' ! i = src ! i)"
  using assms
proof (induction n arbitrary: first src dst cur)
  case 0
  then show ?case by auto
next
  case (Suc n)
  have "first < length src \<and> (\<exists>x r. src ! first = Some x \<and> move_ctor T x = Inr (x, r))"
    using Suc.prems(1)[rule_format, of first] by simp
  then obtain x r where x: "first < length src" "src ! first = Some x"
      "move_ctor T x = Inr (x, r)"
    by blast
  have cl: "cur < length dst" using Suc.prems(2) by simp
  let ?src = "src[first := Some r]"
  let ?dst = "dst[cur := Some x]"
  have "\<forall>i. Suc first \<le> i \<and> i < Suc first + n \<longrightarrow>
             i < length ?src \<and> (\<exists>x r. ?src ! i = Some x \<and> move_ctor T x = Inr (x, r))"
    using Suc.prems(1) by simp
  moreover have "Suc cur + n \<le> length ?dst" using Suc.prems(2) by simp
  ultimately have "\<exists>src' dst'.
      uninit_move_loop T ?src (Suc first) n ?dst (Suc cur) = (None, Suc cur + n, src', dst') \<and>
      length src' = length ?src \<and> length dst' = length ?dst \<and>
      (\<forall>j<length ?dst. dst' ! j =
              (if Suc cur \<le> j \<and> j < Suc cur + n then ?src ! (Suc first + (j - Suc cur))
               else ?dst ! j)) \<and>
      (\<forall>i<length ?src. \<not> (Suc first \<le> i \<and> i < Suc first + n) \<longrightarrow> src' ! i = ?src ! i)"
    by (rule Suc.IH)
  then obtain src' dst' where d:
    "uninit_move_loop T ?src (Suc first) n ?dst (Suc cur) = (None, Suc cur + n, src', dst')"
    "length src' = length src" "length dst' = length dst"
    "\<forall>j<length dst. dst' ! j =
              (if Suc cur \<le> j \<and> j < Suc cur + n then ?src ! (Suc first + (j - Suc cur))
               else ?dst ! j)"
    "\<forall>i<length src. \<not> (Suc first \<le> i \<and> i < Suc first + n) \<longrightarrow> src' ! i = ?src ! i"
    by auto
  have "uninit_move_loop T src first (Suc n) dst cur = (None, cur + Suc n, src', dst')"
    using x d(1) cl by (simp add: read_slot_def construct_at_def)
  moreover have "\<forall>j<length dst. dst' ! j =
              (if cur \<le> j \<and> j < cur + Suc n then src ! (first + (j - cur)) else dst ! j)"
  proof (intro allI impI)
    fix j assume j: "j < length dst"
    show "dst' ! j = (if cur \<le> j \<and> j < cur + Suc n then src ! (first + (j - cur)) else dst ! j)"
    proof (cases "j = cur")
      case True
      then show ?thesis using d(4) j x by simp
    next
      case False
      then have "cur \<le> j \<Longrightarrow> Suc first + (j - Suc cur) = first + (j - cur)" by arith
      moreover have "cur \<le> j \<Longrightarrow> first + (j - cur) \<noteq> first" using False by arith
      ultimately show ?thesis using d(4) j False by (auto simp: nth_list_update)
    qed
  qed
  moreover have "\<forall>i<length src. \<not> (first \<le> i \<and> i < first + Suc n) \<longrightarrow> src' ! i = src ! i"
  proof (intro allI impI)
    fix i assume i: "i < length src" "\<not> (first \<le> i \<and> i < first + Suc n)"
    then have "\<not> (Suc first \<le> i \<and> i < Suc first + n)" "i \<noteq> first" by auto
    with d(5) i(1) show "src' ! i = src ! i" by simp
  qed
  ultimately show ?case using d(2,3) by blast
qed

lemma uninitialized_move_n_ok:
  assumes "\<forall>i. first \<le> i \<and> i < first + n \<longrightarrow>
             i < length src \<and> (\<exists>x r. src ! i = Some x \<and> move_ctor T x = Inr (x, r))"
    and "cur + n \<le> length dst"
  shows "\<exists>src' dst'. uninitialized_move_n T st src first n dst cur = (None, src', dst', []) \<and>
           length src' = length src \<and> length dst' = length dst \<and>
           (\<forall>j<length dst. dst' ! j =
              (if cur \<le> j \<and> j < cur + n then src ! (first + (j - cur)) else dst ! j)) \<and>
           (\<forall>i<length src. \<not> (first \<le> i \<and> i < first + n) \<longrightarrow> src' ! i = src ! i)"
proof -
  from uninit_move_loop_ok[OF assms]
  obtain src' dst' where d:
    "uninit_move_loop T src first n dst cur = (None, cur + n, src', dst')"
    "length src' = length src" "length dst' = length dst"
    "\<forall>j<length dst. dst' ! j =
              (if cur \<le> j \<and> j < cur + n then src ! (first + (j - cur)) else dst ! j)"
    "\<forall>i<length src. \<not> (first \<le> i \<and> i < first + n) \<longrightarrow> src' ! i = src ! i"
    by blast
  have "uninitialized_move_n T st src first n dst cur = (None, src', dst', [])"
    by (simp add: uninitialized_move_n_def d(1))
  with d(2,3,4,5) show ?thesis by blast
qed

text \<open>The relocation chosen by \<open>if constexpr\<close>, for values that relocate without throwing.\<close>

lemma relocation_ok_nth:
  assumes "Vector_inv v" "relocation_ok T (elems v)" "i < size_m v"
  shows "nothrow_move_constructible T \<or> \<not> copy_constructible T \<Longrightarrow>
           \<exists>r. move_ctor T (elems v ! i) = Inr (elems v ! i, r)"
    and "\<not> (nothrow_move_constructible T \<or> \<not> copy_constructible T) \<Longrightarrow>
           copy_ctor T (elems v ! i) = Inr (elems v ! i)"
proof -
  have len: "i < length (elems v)" using assms(1,3) by (simp add: elems_length)
  {
    assume m: "nothrow_move_constructible T \<or> \<not> copy_constructible T"
    with assms(2) len
    have "case move_ctor T (elems v ! i) of Inl e \<Rightarrow> False | Inr (y, r) \<Rightarrow> y = elems v ! i"
      unfolding relocation_ok_def list_all_length by (simp del: de_Morgan_conj de_Morgan_disj)
    then show "\<exists>r. move_ctor T (elems v ! i) = Inr (elems v ! i, r)"
      by (auto split: sum.splits)
  }
  {
    assume m: "\<not> (nothrow_move_constructible T \<or> \<not> copy_constructible T)"
    with assms(2) len show "copy_ctor T (elems v ! i) = Inr (elems v ! i)"
      unfolding relocation_ok_def list_all_length by auto
  }
qed

text \<open>
  Relocating the range \<open>[first, first + n)\<close> of the live elements to the cursor \<open>cur\<close> of
  another buffer: by move, which leaves the rest of the source as it was, and by copy.
\<close>

lemma move_range_ok:
  assumes "Vector_inv v" "relocation_ok T (elems v)"
    and "nothrow_move_constructible T \<or> \<not> copy_constructible T"
    and "first + n \<le> size_m v" "cur + n \<le> length dst"
    and "length src = length (buffer_m (data_m v))"
    and "\<forall>i. first \<le> i \<and> i < first + n \<longrightarrow> src ! i = buffer_m (data_m v) ! i"
  shows "\<exists>src' dst'. uninitialized_move_n T st src first n dst cur = (None, src', dst', []) \<and>
           length src' = length src \<and> length dst' = length dst \<and>
           (\<forall>j<length dst. dst' ! j =
              (if cur \<le> j \<and> j < cur + n then buffer_m (data_m v) ! (first + (j - cur))
               else dst ! j)) \<and>
           (\<forall>i<length src. \<not> (first \<le> i \<and> i < first + n) \<longrightarrow> src' ! i = src ! i)"
proof -
  have ok: "\<forall>i. first \<le> i \<and> i < first + n \<longrightarrow>
             i < length src \<and> (\<exists>x r. src ! i = Some x \<and> move_ctor T x = Inr (x, r))"
  proof (intro allI impI)
    fix i assume h: "first \<le> i \<and> i < first + n"
    then have i: "i < size_m v" using assms(4) by simp
    from elems_nth[OF assms(1) i] relocation_ok_nth(1)[OF assms(1,2) i assms(3)] assms(6,7) h
    show "i < length src \<and> (\<exists>x r. src ! i = Some x \<and> move_ctor T x = Inr (x, r))" by auto
  qed
  from uninitialized_move_n_ok[OF ok assms(5), of st]
  obtain src' dst' where d:
    "uninitialized_move_n T st src first n dst cur = (None, src', dst', [])"
    "length src' = length src" "length dst' = length dst"
    "\<forall>j<length dst. dst' ! j =
              (if cur \<le> j \<and> j < cur + n then src ! (first + (j - cur)) else dst ! j)"
    "\<forall>i<length src. \<not> (first \<le> i \<and> i < first + n) \<longrightarrow> src' ! i = src ! i"
    by blast
  have "\<forall>j<length dst. dst' ! j =
              (if cur \<le> j \<and> j < cur + n then buffer_m (data_m v) ! (first + (j - cur))
               else dst ! j)"
  proof (intro allI impI)
    fix j assume j: "j < length dst"
    show "dst' ! j = (if cur \<le> j \<and> j < cur + n then buffer_m (data_m v) ! (first + (j - cur))
               else dst ! j)"
    proof (cases "cur \<le> j \<and> j < cur + n")
      case True
      then have "first \<le> first + (j - cur) \<and> first + (j - cur) < first + n" by auto
      with assms(7) have "src ! (first + (j - cur)) = buffer_m (data_m v) ! (first + (j - cur))"
        by blast
      with d(4) j True show ?thesis by simp
    next
      case False
      show ?thesis using d(4)[rule_format, OF j] unfolding if_not_P[OF False] .
    qed
  qed
  with d(1,2,3,5) show ?thesis by blast
qed

lemma copy_range_ok:
  assumes "Vector_inv v" "relocation_ok T (elems v)"
    and "\<not> (nothrow_move_constructible T \<or> \<not> copy_constructible T)"
    and "first + n \<le> size_m v" "cur + n \<le> length dst"
  shows "\<exists>dst'. uninitialized_copy_n T st (buffer_m (data_m v)) first n dst cur = (None, dst', []) \<and>
           length dst' = length dst \<and>
           (\<forall>j<length dst. dst' ! j =
              (if cur \<le> j \<and> j < cur + n then buffer_m (data_m v) ! (first + (j - cur))
               else dst ! j))"
proof -
  let ?src = "buffer_m (data_m v)"
  have ok: "\<forall>i. first \<le> i \<and> i < first + n \<longrightarrow>
             i < length ?src \<and> (\<exists>x. ?src ! i = Some x \<and> copy_ctor T x = Inr (id x))"
  proof (intro allI impI)
    fix i assume h: "first \<le> i \<and> i < first + n"
    then have i: "i < size_m v" using assms(4) by simp
    from elems_nth[OF assms(1) i] relocation_ok_nth(2)[OF assms(1,2) i assms(3)]
    show "i < length ?src \<and> (\<exists>x. ?src ! i = Some x \<and> copy_ctor T x = Inr (id x))" by auto
  qed
  from uninitialized_copy_n_ok[OF ok assms(5), of st]
  obtain dst' where d: "uninitialized_copy_n T st ?src first n dst cur = (None, dst', [])"
    "length dst' = length dst"
    "\<forall>j<length dst. dst' ! j =
       (if cur \<le> j \<and> j < cur + n then Some (id (the (?src ! (first + (j - cur))))) else dst ! j)"
    by blast
  have "\<forall>j<length dst. dst' ! j =
              (if cur \<le> j \<and> j < cur + n then ?src ! (first + (j - cur)) else dst ! j)"
  proof (intro allI impI)
    fix j assume j: "j < length dst"
    show "dst' ! j = (if cur \<le> j \<and> j < cur + n then ?src ! (first + (j - cur)) else dst ! j)"
    proof (cases "cur \<le> j \<and> j < cur + n")
      case True
      then have "first + (j - cur) < size_m v" using assms(4) by auto
      from elems_nth(2)[OF assms(1) this] d(3) j True show ?thesis by simp
    next
      case False
      show ?thesis using d(3)[rule_format, OF j] unfolding if_not_P[OF False] .
    qed
  qed
  with d(1,2) show ?thesis by blast
qed

lemma relocate_all_ok:
  assumes "Vector_inv v" "relocation_ok T (elems v)" "size_m v \<le> length dst"
  shows "\<exists>src' dst'.
           (if nothrow_move_constructible T \<or> \<not> copy_constructible T
            then uninitialized_move_n T st (buffer_m (data_m v)) 0 (size_m v) dst 0
            else (case uninitialized_copy_n T st (buffer_m (data_m v)) 0 (size_m v) dst 0 of
                    (r, d, evs) \<Rightarrow> (r, buffer_m (data_m v), d, evs)))
             = (None, src', dst', []) \<and>
           length src' = length (buffer_m (data_m v)) \<and> length dst' = length dst \<and>
           (\<forall>j<length dst. dst' ! j =
              (if j < size_m v then buffer_m (data_m v) ! j else dst ! j))"
proof (cases "nothrow_move_constructible T \<or> \<not> copy_constructible T")
  case True
  from move_range_ok[OF assms(1,2) True, of 0 "size_m v" 0 dst "buffer_m (data_m v)" st] assms(3)
  obtain src' dst' where d:
    "uninitialized_move_n T st (buffer_m (data_m v)) 0 (size_m v) dst 0 = (None, src', dst', [])"
    "length src' = length (buffer_m (data_m v))" "length dst' = length dst"
    "\<forall>j<length dst. dst' ! j = (if j < size_m v then buffer_m (data_m v) ! j else dst ! j)"
    by auto
  show ?thesis unfolding if_P[OF True] using d by blast
next
  case False
  from copy_range_ok[OF assms(1,2) False, of 0 "size_m v" 0 dst st] assms(3)
  obtain dst' where d:
    "uninitialized_copy_n T st (buffer_m (data_m v)) 0 (size_m v) dst 0 = (None, dst', [])"
    "length dst' = length dst"
    "\<forall>j<length dst. dst' ! j = (if j < size_m v then buffer_m (data_m v) ! j else dst ! j)"
    by auto
  then show ?thesis unfolding if_not_P[OF False] by simp
qed

lemma RawMemory_new_obtain:
  assumes "n \<noteq> 0 \<longrightarrow> Allocate_ok T n"
  shows "\<exists>m. RawMemory_new T n = Inr m \<and> buffer_m m = replicate n None \<and> capacity_m m = n"
  using RawMemory_new_ok[OF assms] by simp

lemma Reserve_grows:
  assumes "Vector_inv v" "relocation_ok T (elems v)" "capacity_m (data_m v) < c"
    and "Allocate_ok T c"
  shows "\<exists>v' evs. Reserve T v c = (Inr (), v', evs) \<and> Vector_inv v' \<and>
           capacity_m (data_m v') = c \<and> size_m v' = size_m v \<and> elems v' = elems v"
proof -
  let ?src = "buffer_m (data_m v)"
  let ?n = "size_m v"
  have c0: "\<not> c \<le> capacity_m (data_m v)" using assms(3) by simp
  from RawMemory_new_obtain[of c T] assms(4)
  obtain new_data where new: "RawMemory_new T c = Inr new_data"
    "buffer_m new_data = replicate c None" "capacity_m new_data = c"
    by blast
  have nc: "?n \<le> c" "?n \<le> length ?src" using assms(1,3) by (simp_all add: Vector_inv_iff)
  have "?n \<le> length (buffer_m new_data)" using nc new(2) by simp
  from relocate_all_ok[OF assms(1,2) this, of new_mem]
  obtain src' dst' where d:
    "(if nothrow_move_constructible T \<or> \<not> copy_constructible T
      then uninitialized_move_n T new_mem ?src 0 ?n (buffer_m new_data) 0
      else (case uninitialized_copy_n T new_mem ?src 0 ?n (buffer_m new_data) 0 of
              (r, d, evs) \<Rightarrow> (r, ?src, d, evs))) = (None, src', dst', [])"
    "length dst' = c"
    "\<forall>j<c. dst' ! j = (if j < ?n then ?src ! j else None)"
    unfolding new(2) by auto
  obtain old evs' where o: "destroy_n data_mem src' 0 ?n = (old, evs')" by (metis surj_pair)
  let ?v' = "v\<lparr>data_m := \<lparr>buffer_m = dst', capacity_m = c\<rparr>\<rparr>"
  have res: "Reserve T v c = (Inr (), ?v',
               Allocate_trace c @ evs' @ RawMemory_dtor data_mem
                 \<lparr>buffer_m = old, capacity_m = capacity_m (data_m v)\<rparr>)"
    unfolding Reserve_def using c0 new(1,3) d(1) o
    by (simp add: RawMemory_Swap_def del: disj_not2 split del: if_split)
  have inv: "Vector_inv ?v'"
    using d(2,3) nc assms(1) by (simp add: Vector_inv_iff)
  have "take ?n dst' = take ?n ?src"
    by (rule nth_equalityI) (use d(2,3) nc in auto)
  then have el: "elems ?v' = elems v" by (simp add: elems_def)
  show ?thesis using res inv el by simp
qed

lemma construct_at_end:
  fixes v :: "'a Vector" and x :: 'a
  assumes "Vector_inv v" "size_m v < capacity_m (data_m v)"
  defines "v2 \<equiv> v\<lparr>data_m := (data_m v)\<lparr>buffer_m := (buffer_m (data_m v))[size_m v := Some x]\<rparr>\<rparr>"
  shows "construct_at (buffer_m (data_m v)) (size_m v) x
           = Inr ((buffer_m (data_m v))[size_m v := Some x])"
    and "EmplaceBack_return v2 evs = (Inr (size_m v), v2\<lparr>size_m := Suc (size_m v)\<rparr>, evs)"
    and "Vector_inv (v2\<lparr>size_m := Suc (size_m v)\<rparr>)"
    and "elems (v2\<lparr>size_m := Suc (size_m v)\<rparr>) = elems v @ [x]"
proof -
  let ?b = "buffer_m (data_m v)"
  have len: "size_m v < length ?b" using assms(1,2) by (simp add: Vector_inv_iff)
  then show "construct_at ?b (size_m v) x = Inr (?b[size_m v := Some x])"
    by (simp add: construct_at_def)
  show "EmplaceBack_return v2 evs = (Inr (size_m v), v2\<lparr>size_m := Suc (size_m v)\<rparr>, evs)"
    unfolding EmplaceBack_return_def v2_def RawMemory_at_def using assms(2) by simp
  show "Vector_inv (v2\<lparr>size_m := Suc (size_m v)\<rparr>)"
    unfolding v2_def using assms(1,2) by (auto simp: Vector_inv_iff nth_list_update)
  show "elems (v2\<lparr>size_m := Suc (size_m v)\<rparr>) = elems v @ [x]"
    unfolding v2_def elems_def using len by (simp add: take_Suc_conv_app_nth)
qed

lemma EmplaceBack_appends:
  assumes "Vector_inv v"
    and "size_m v = Capacity v \<longrightarrow> relocation_ok T (elems v)"
    and "size_m v = Capacity v \<longrightarrow> Allocate_ok T (max 1 (2 * Capacity v))"
    and "\<forall>b. size_m v = 0 \<or> b = buffer_m (data_m v) \<longrightarrow> args b = Inr (x, b)"
  shows "\<exists>v' evs. EmplaceBack T v args = (Inr (size_m v), v', evs) \<and> Vector_inv v' \<and>
           size_m v' = Suc (size_m v) \<and> elems v' = elems v @ [x]"
proof -
  let ?src = "buffer_m (data_m v)"
  let ?n = "size_m v"
  have args0: "args b = Inr (x, b)" if "size_m v = 0" for b using assms(4) that by simp
  have args: "args (buffer_m (data_m v)) = Inr (x, buffer_m (data_m v))" using assms(4) by simp
  consider (empty) "size_m v = 0"
    | (full) "size_m v \<noteq> 0" "size_m v = Capacity v"
    | (spare) "size_m v \<noteq> 0" "size_m v \<noteq> Capacity v"
    by blast
  then show ?thesis
  proof cases
    case empty
    have "\<exists>v1 evs1. Reserve T v 1 = (Inr (), v1, evs1) \<and> Vector_inv v1 \<and>
            0 < capacity_m (data_m v1) \<and> size_m v1 = 0 \<and> elems v1 = elems v"
    proof (cases "1 \<le> capacity_m (data_m v)")
      case True
      with assms(1) empty show ?thesis by (simp add: Reserve_def)
    next
      case False
      then have "size_m v = Capacity v" "capacity_m (data_m v) < 1"
        using empty by (simp_all add: Capacity_def)
      with assms(2,3) have "relocation_ok T (elems v)" "Allocate_ok T 1"
        by (simp_all add: Capacity_def)
      from Reserve_grows[OF assms(1) this(1) \<open>capacity_m (data_m v) < 1\<close> this(2)] empty
      show ?thesis by auto
    qed
    then obtain v1 evs1 where r: "Reserve T v 1 = (Inr (), v1, evs1)" "Vector_inv v1"
      "0 < capacity_m (data_m v1)" "size_m v1 = 0" "elems v1 = elems v"
      by blast
    from r(3,4) have lt: "size_m v1 < capacity_m (data_m v1)" by simp
    let ?v2 = "v1\<lparr>data_m := (data_m v1)\<lparr>buffer_m := (buffer_m (data_m v1))[0 := Some x]\<rparr>\<rparr>"
    from construct_at_end(1)[OF r(2) lt, where x = x, unfolded r(4)]
      construct_at_end(2)[OF r(2) lt, where x = x and evs = evs1, unfolded r(4)]
      construct_at_end(3,4)[OF r(2) lt, where x = x, unfolded r(4)]
    have "construct_at (buffer_m (data_m v1)) 0 x = Inr ((buffer_m (data_m v1))[0 := Some x])"
      "EmplaceBack_return ?v2 evs1 = (Inr 0, ?v2\<lparr>size_m := Suc 0\<rparr>, evs1)"
      "Vector_inv (?v2\<lparr>size_m := Suc 0\<rparr>)" "elems (?v2\<lparr>size_m := Suc 0\<rparr>) = elems v1 @ [x]"
      by simp_all
    with empty r(1,5) show ?thesis by (simp add: EmplaceBack_def args0)
  next
    case full
    then have n0: "0 < ?n" and cap: "capacity_m (data_m v) = ?n" by (simp_all add: Capacity_def)
    have len: "length ?src = ?n" using assms(1) cap by (simp add: Vector_inv_iff)
    have rel: "relocation_ok T (elems v)" using assms(2) full by simp
    have "Allocate_ok T (?n * 2)"
      using assms(3) full by (simp add: max_def mult.commute split: if_splits)
    with RawMemory_new_obtain[of "?n * 2" T]
    obtain new_data where new: "RawMemory_new T (?n * 2) = Inr new_data"
      "buffer_m new_data = replicate (?n * 2) None" "capacity_m new_data = ?n * 2"
      by blast
    let ?dst = "(replicate (?n * 2) None)[?n := Some x]"
    have ca: "construct_at (buffer_m new_data) ?n x = Inr ((buffer_m new_data)[?n := Some x])"
      using new(2) n0 by (simp add: construct_at_def)
    have "?n \<le> length ((buffer_m new_data)[?n := Some x])" using new(2) by simp
    from relocate_all_ok[OF assms(1) rel this, of new_mem]
    obtain src' dst' where d:
      "(if nothrow_move_constructible T \<or> \<not> copy_constructible T
        then uninitialized_move_n T new_mem ?src 0 ?n ((buffer_m new_data)[?n := Some x]) 0
        else (case uninitialized_copy_n T new_mem ?src 0 ?n
                     ((buffer_m new_data)[?n := Some x]) 0 of
                (r, d, evs) \<Rightarrow> (r, ?src, d, evs))) = (None, src', dst', [])"
      "length dst' = ?n * 2"
      "\<forall>j<?n * 2. dst' ! j = (if j < ?n then ?src ! j else ?dst ! j)"
      unfolding new(2) by auto
    obtain old evs' where o: "destroy_n data_mem src' 0 ?n = (old, evs')" by (metis surj_pair)
    let ?v' = "\<lparr>data_m = \<lparr>buffer_m = dst', capacity_m = ?n * 2\<rparr>, size_m = Suc ?n\<rparr>"
    have res: "EmplaceBack T v args = (Inr ?n, ?v',
                 Allocate_trace (?n * 2) @ evs' @ RawMemory_dtor data_mem
                   \<lparr>buffer_m = old, capacity_m = capacity_m (data_m v)\<rparr>)"
    proof -
      have fc: "Capacity v = size_m v" using full(2) by simp
      show ?thesis
        unfolding EmplaceBack_def using full(1) fc new(1,3) d(1) o n0 ca
        by (simp add: args RawMemory_Swap_def EmplaceBack_return_def RawMemory_at_def
              del: disj_not2 split del: if_split)
    qed
    have live: "\<forall>j<?n. ?src ! j \<noteq> None" using assms(1) by (simp add: Vector_inv_iff)
    have inv: "Vector_inv ?v'"
      unfolding Vector_inv_iff using d(2,3) n0 live by (auto simp: nth_list_update)
    have tk: "take (Suc ?n) dst' = take ?n ?src @ [Some x]"
      by (rule nth_equalityI) (use d(2,3) n0 len in \<open>auto simp: nth_append less_Suc_eq\<close>)
    have el: "elems ?v' = elems v @ [x]" using tk by (simp add: elems_def)
    show ?thesis using res inv el by simp
  next
    case spare
    then have lt: "?n < capacity_m (data_m v)"
      using assms(1) by (simp add: Vector_inv_iff Capacity_def)
    let ?v2 = "v\<lparr>data_m := (data_m v)\<lparr>buffer_m := ?src[?n := Some x]\<rparr>\<rparr>"
    from construct_at_end(1)[OF assms(1) lt, where x = x]
      construct_at_end(2)[OF assms(1) lt, where x = x and evs = "[]"]
      construct_at_end(3,4)[OF assms(1) lt, where x = x]
    have "construct_at ?src ?n x = Inr (?src[?n := Some x])"
      "EmplaceBack_return ?v2 [] = (Inr ?n, ?v2\<lparr>size_m := Suc ?n\<rparr>, [])"
      "Vector_inv (?v2\<lparr>size_m := Suc ?n\<rparr>)" "elems (?v2\<lparr>size_m := Suc ?n\<rparr>) = elems v @ [x]"
      by simp_all
    with spare lt show ?thesis by (simp add: EmplaceBack_def RawMemory_plus_def args)
  qed
qed

lemma index_op_elems:
  assumes "Vector_inv v" "i < size_m v"
  shows "index_op v i = Inr (elems v ! i)"
  using elems_nth[OF assms] assms
  by (simp add: index_op_def RawMemory_at_def read_slot_def Vector_inv_iff)

text \<open>
  Claim C5. For a vector of size \<open>n\<close> that satisfies the invariant and, when it is full,
  whose elements relocate without throwing and keep their values and for which the
  allocation of the grown buffer succeeds:
  \<^item> \<open>EmplaceBack\<close> with arguments that construct \<open>x\<close> returns the cursor \<open>n\<close> of the new
    element;
  \<^item> \<open>PushBack(const T&)\<close> of an object whose copy has its value \<open>x\<close> returns;
  \<^item> \<open>PushBack(T&&)\<close> of an object with the value \<open>x\<close>, whose move construction gives \<open>x\<close>,
    returns (this is the overload a move-only \<open>T\<close> has);
  \<^item> \<open>PushBack(v[k])\<close>, whose parameter refers to an element of the vector itself, returns
    and appends the value of that element, also when the buffer is reallocated.

  In each case the size is \<open>n + 1\<close> afterwards, the element at \<open>n\<close> is \<open>x\<close> and the elements
  at the indices below \<open>n\<close> are the ones before the call.
\<close>

theorem PushBack_appends:
  assumes "Vector_inv v"
    and "Size v = Capacity v \<longrightarrow>
           relocation_ok T (elems v) \<and> Allocate_ok T (max 1 (2 * Capacity v))"
  shows "((\<forall>b. args b = Inr (x, b)) \<longrightarrow>
            (\<exists>v' evs. EmplaceBack T v args = (Inr (Size v), v', evs) \<and>
               Size v' = Size v + 1 \<and> index_op v' (Size v) = Inr x \<and>
               (\<forall>i<Size v. index_op v' i = index_op v i))) \<and>
         (copy_ctor T x = Inr x \<longrightarrow>
            (\<exists>v' evs. PushBack T v (Object x) = (Inr (), v', evs) \<and>
               Size v' = Size v + 1 \<and> index_op v' (Size v) = Inr x \<and>
               (\<forall>i<Size v. index_op v' i = index_op v i))) \<and>
         ((\<exists>r. move_ctor T x = Inr (x, r)) \<longrightarrow>
            (\<exists>v' evs. PushBack_rvalue T v (Object x) = (Inr (), v', evs) \<and>
               Size v' = Size v + 1 \<and> index_op v' (Size v) = Inr x \<and>
               (\<forall>i<Size v. index_op v' i = index_op v i))) \<and>
         (k < Size v \<and> copy_ctor T (elems v ! k) = Inr (elems v ! k) \<longrightarrow>
            (\<exists>v' evs. PushBack T v (Element k) = (Inr (), v', evs) \<and>
               Size v' = Size v + 1 \<and> index_op v' (Size v) = index_op v k \<and>
               (\<forall>i<Size v. index_op v' i = index_op v i)))"
proof -
  have len: "length (elems v) = size_m v" using assms(1) by (rule elems_length)
  have main: "\<exists>v' evs. EmplaceBack T v a = (Inr (size_m v), v', evs) \<and>
               size_m v' = size_m v + 1 \<and> index_op v' (size_m v) = Inr y \<and>
               (\<forall>i<size_m v. index_op v' i = index_op v i)"
    if a: "\<forall>b. size_m v = 0 \<or> b = buffer_m (data_m v) \<longrightarrow> a b = Inr (y, b)" for a y
  proof -
    have h: "size_m v = Capacity v \<longrightarrow> relocation_ok T (elems v)"
      "size_m v = Capacity v \<longrightarrow> Allocate_ok T (max 1 (2 * Capacity v))"
      using assms(2) by (simp_all add: Size_def)
    from EmplaceBack_appends[OF assms(1) h a]
    obtain v' evs where r: "EmplaceBack T v a = (Inr (size_m v), v', evs)" "Vector_inv v'"
      "size_m v' = Suc (size_m v)" "elems v' = elems v @ [y]"
      by blast
    have 2: "index_op v' (size_m v) = Inr y"
      using index_op_elems[OF r(2), of "size_m v"] r(3,4) len by (simp add: nth_append)
    have 3: "\<forall>i<size_m v. index_op v' i = index_op v i"
    proof (intro allI impI)
      fix i assume i: "i < size_m v"
      then have "i < size_m v'" using r(3) by simp
      from index_op_elems[OF r(2) this] index_op_elems[OF assms(1) i] r(4) len i
      show "index_op v' i = index_op v i" by (simp add: nth_append)
    qed
    show ?thesis using r(1,3) 2 3 by simp
  qed
  have push: "PushBack T v val = (Inr (), v', evs)"
    if "EmplaceBack T v (copy_from T val) = (Inr p, v', evs)" for val p v' evs
    using that by (simp add: PushBack_def)
  have push_r: "PushBack_rvalue T v val = (Inr (), v', evs)"
    if "EmplaceBack T v (move_from T val) = (Inr p, v', evs)" for val p v' evs
    using that by (simp add: PushBack_rvalue_def)
  have c1: "\<exists>v' evs. EmplaceBack T v args = (Inr (Size v), v', evs) \<and>
               Size v' = Size v + 1 \<and> index_op v' (Size v) = Inr x \<and>
               (\<forall>i<Size v. index_op v' i = index_op v i)"
    if "\<forall>b. args b = Inr (x, b)"
    using main[of args x] that by (simp add: Size_def)
  have c2: "\<exists>v' evs. PushBack T v (Object x) = (Inr (), v', evs) \<and>
               Size v' = Size v + 1 \<and> index_op v' (Size v) = Inr x \<and>
               (\<forall>i<Size v. index_op v' i = index_op v i)"
    if "copy_ctor T x = Inr x"
  proof -
    from that have "\<forall>b. size_m v = 0 \<or> b = buffer_m (data_m v) \<longrightarrow>
                      copy_from T (Object x) b = Inr (x, b)"
      by simp
    from main[OF this] push show ?thesis unfolding Size_def by blast
  qed
  have c3: "\<exists>v' evs. PushBack_rvalue T v (Object x) = (Inr (), v', evs) \<and>
               Size v' = Size v + 1 \<and> index_op v' (Size v) = Inr x \<and>
               (\<forall>i<Size v. index_op v' i = index_op v i)"
    if "\<exists>r. move_ctor T x = Inr (x, r)"
  proof -
    from that have "\<forall>b. size_m v = 0 \<or> b = buffer_m (data_m v) \<longrightarrow>
                      move_from T (Object x) b = Inr (x, b)"
      by auto
    from main[OF this] push_r show ?thesis unfolding Size_def by blast
  qed
  have c4: "\<exists>v' evs. PushBack T v (Element k) = (Inr (), v', evs) \<and>
               Size v' = Size v + 1 \<and> index_op v' (Size v) = index_op v k \<and>
               (\<forall>i<Size v. index_op v' i = index_op v i)"
    if "k < Size v \<and> copy_ctor T (elems v ! k) = Inr (elems v ! k)"
  proof -
    from that have k: "k < size_m v" "copy_ctor T (elems v ! k) = Inr (elems v ! k)"
      by (simp_all add: Size_def)
    from elems_nth[OF assms(1) k(1)] k
    have "\<forall>b. size_m v = 0 \<or> b = buffer_m (data_m v) \<longrightarrow>
                      copy_from T (Element k) b = Inr (elems v ! k, b)"
      by (simp add: read_slot_def)
    from main[OF this] push index_op_elems[OF assms(1) k(1)]
    show ?thesis unfolding Size_def by (metis (no_types, lifting))
  qed
  show ?thesis using c1 c2 c3 c4 by blast
qed

text \<open>
  Instances: \<open>PushBack(T&&)\<close> of an owning pointer into a full vector of two, \<open>PushBack\<close>
  of a value and of the vector's own first element into a full vector of a type that is
  relocated by copy, and \<open>EmplaceBack\<close> with spare capacity.
\<close>

theorem PushBack_appends_witness:
  "PushBack_rvalue unique_ptr_like (mk_vector [Some 4, Some 5] 2) (Object (Some 6)) =
     (Inr (), mk_vector [Some 4, Some 5, Some 6] 4,
      [OperatorNew 4, Destructor data_mem 0 True, Destructor data_mem 1 True,
       OperatorDelete data_mem 0]) \<and>
   (\<exists>v' evs. PushBack_rvalue unique_ptr_like (mk_vector [Some 4, Some 5] 2) (Object (Some 6))
                = (Inr (), v', evs) \<and>
      Size v' = 3 \<and> index_op v' 2 = Inr (Some 6) \<and> index_op v' 0 = Inr (Some 4) \<and>
      index_op v' 1 = Inr (Some 5)) \<and>
   (\<exists>v' evs. PushBack throwing_copy (mk_vector [4, 5] 2) (Object 6) = (Inr (), v', evs) \<and>
      Size v' = 3 \<and> index_op v' 2 = Inr 6 \<and> index_op v' 0 = Inr 4 \<and> index_op v' 1 = Inr 5) \<and>
   (\<exists>v' evs. EmplaceBack throwing_copy (mk_vector [4, 5] 3) (emplace_value 6)
                = (Inr 2, v', evs) \<and>
      Size v' = 3 \<and> index_op v' 2 = Inr 6 \<and> index_op v' 0 = Inr 4 \<and> index_op v' 1 = Inr 5) \<and>
   (\<exists>v' evs. PushBack throwing_copy (mk_vector [4, 5] 2) (Element 0) = (Inr (), v', evs) \<and>
      Size v' = 3 \<and> index_op v' 2 = Inr 4 \<and> index_op v' 0 = Inr 4 \<and> index_op v' 1 = Inr 5)"
proof -
  let ?u = "mk_vector [Some 4, Some (5::nat)] 2"
  let ?v = "mk_vector [4, 5::nat] 2"
  let ?w = "mk_vector [4, 5::nat] 3"
  have u1: "Vector_inv ?u" by code_simp
  have "relocation_ok unique_ptr_like (elems ?u)" by code_simp
  then have u2: "Size ?u = Capacity ?u \<longrightarrow>
      relocation_ok unique_ptr_like (elems ?u) \<and>
      Allocate_ok unique_ptr_like (max 1 (2 * Capacity ?u))"
    by (simp add: unique_ptr_like_def Allocate_ok_def size_t_range_def Capacity_def mk_vector_def)
  have u3: "\<exists>r. move_ctor unique_ptr_like (Some 6) = Inr (Some (6::nat), r)"
    by (simp add: unique_ptr_like_def)
  have u4: "Size ?u = 2" "index_op ?u 0 = Inr (Some 4)" "index_op ?u 1 = Inr (Some 5)"
    by code_simp+
  have u5: "PushBack_rvalue unique_ptr_like ?u (Object (Some 6)) =
     (Inr (), mk_vector [Some 4, Some 5, Some 6] 4,
      [OperatorNew 4, Destructor data_mem 0 True, Destructor data_mem 1 True,
       OperatorDelete data_mem 0])"
    by code_simp
  have v1: "Vector_inv ?v" "Vector_inv ?w" by code_simp+
  have "relocation_ok throwing_copy (elems ?v)" by code_simp
  then have v2: "Size ?v = Capacity ?v \<longrightarrow>
      relocation_ok throwing_copy (elems ?v) \<and>
      Allocate_ok throwing_copy (max 1 (2 * Capacity ?v))"
    by (simp add: throwing_copy_def Allocate_ok_def size_t_range_def Capacity_def mk_vector_def)
  have w2: "Size ?w = Capacity ?w \<longrightarrow>
      relocation_ok throwing_copy (elems ?w) \<and>
      Allocate_ok throwing_copy (max 1 (2 * Capacity ?w))"
    by (simp add: Size_def Capacity_def mk_vector_def)
  have v3: "copy_ctor throwing_copy 6 = Inr 6" by (simp add: throwing_copy_def)
  have v4: "Size ?v = 2" "index_op ?v 0 = Inr 4" "index_op ?v 1 = Inr 5"
    "Size ?w = 2" "index_op ?w 0 = Inr 4" "index_op ?w 1 = Inr 5"
    by code_simp+
  have v5: "0 < Size ?v \<and> copy_ctor throwing_copy (elems ?v ! 0) = Inr (elems ?v ! 0)"
    by code_simp
  have v6: "\<forall>b. emplace_value (6::nat) b = Inr (6, b)" by (simp add: emplace_value_def)
  have two: "(\<forall>i<2. P i) \<longleftrightarrow> P 0 \<and> P (1::nat)" for P
    by (auto simp: less_Suc_eq numeral_2_eq_2)
  from PushBack_appends[OF u1 u2, of _ "Some 6"] u3
  have a: "\<exists>v' evs. PushBack_rvalue unique_ptr_like ?u (Object (Some 6)) = (Inr (), v', evs) \<and>
      Size v' = 3 \<and> index_op v' 2 = Inr (Some 6) \<and> index_op v' 0 = Inr (Some 4) \<and>
      index_op v' 1 = Inr (Some 5)"
    unfolding u4 two by auto
  from PushBack_appends[OF v1(1) v2, of _ 6] v3
  have b: "\<exists>v' evs. PushBack throwing_copy ?v (Object 6) = (Inr (), v', evs) \<and>
      Size v' = 3 \<and> index_op v' 2 = Inr 6 \<and> index_op v' 0 = Inr 4 \<and> index_op v' 1 = Inr 5"
    unfolding v4 two by auto
  from PushBack_appends[OF v1(2) w2, of "emplace_value 6" 6] v6
  have c: "\<exists>v' evs. EmplaceBack throwing_copy ?w (emplace_value 6) = (Inr 2, v', evs) \<and>
      Size v' = 3 \<and> index_op v' 2 = Inr 6 \<and> index_op v' 0 = Inr 4 \<and> index_op v' 1 = Inr 5"
    unfolding v4 two by auto
  from PushBack_appends[OF v1(1) v2, of _ _ 0] v5
  have d: "\<exists>v' evs. PushBack throwing_copy ?v (Element 0) = (Inr (), v', evs) \<and>
      Size v' = 3 \<and> index_op v' 2 = Inr 4 \<and> index_op v' 0 = Inr 4 \<and> index_op v' 1 = Inr 5"
    unfolding v4 two by auto
  show ?thesis using u5 a b c d by blast
qed

subsection \<open>Erasing\<close>

lemma std_move_left_ok:
  assumes "\<forall>i. result \<le> i \<and> i < Suc result + n \<longrightarrow> i < length b \<and> b ! i \<noteq> None"
    and "\<forall>i. Suc result \<le> i \<and> i < Suc result + n \<longrightarrow>
           (\<forall>d. \<exists>r. move_assign T d (the (b ! i)) = Inr (the (b ! i), r))"
  shows "\<exists>b'. std_move T b (Suc result) n result = (None, b') \<and> length b' = length b \<and>
           (\<forall>j<length b.
              (j < result \<or> Suc result + n \<le> j \<longrightarrow> b' ! j = b ! j) \<and>
              (result \<le> j \<and> j < result + n \<longrightarrow> b' ! j = b ! Suc j) \<and>
              (j = result + n \<longrightarrow> b' ! j \<noteq> None))"
  using assms
proof (induction n arbitrary: b result)
  case 0
  then show ?case by auto
next
  case (Suc n)
  have "Suc result < length b \<and> b ! Suc result \<noteq> None"
    using Suc.prems(1)[rule_format, of "Suc result"] by simp
  then obtain x where x: "Suc result < length b" "b ! Suc result = Some x" by auto
  have "result < length b \<and> b ! result \<noteq> None"
    using Suc.prems(1)[rule_format, of result] by simp
  then obtain d where d: "result < length b" "b ! result = Some d" by auto
  have "\<forall>d. \<exists>r. move_assign T d (the (b ! Suc result)) = Inr (the (b ! Suc result), r)"
    using Suc.prems(2)[rule_format, of "Suc result"] by simp
  then obtain r where r: "move_assign T d x = Inr (x, r)" using x(2) by auto
  let ?b1 = "b[Suc result := Some r, result := Some x]"
  have 1: "\<forall>i. Suc result \<le> i \<and> i < Suc (Suc result) + n \<longrightarrow> i < length ?b1 \<and> ?b1 ! i \<noteq> None"
    using Suc.prems(1) by (auto simp: nth_list_update)
  have 2: "\<forall>i. Suc (Suc result) \<le> i \<and> i < Suc (Suc result) + n \<longrightarrow>
           (\<forall>d. \<exists>r. move_assign T d (the (?b1 ! i)) = Inr (the (?b1 ! i), r))"
    using Suc.prems(2) by (auto simp: nth_list_update)
  from Suc.IH[OF 1 2]
  obtain b' where b': "std_move T ?b1 (Suc (Suc result)) n (Suc result) = (None, b')"
    "length b' = length b"
    "\<forall>j<length b.
              (j < Suc result \<or> Suc (Suc result) + n \<le> j \<longrightarrow> b' ! j = ?b1 ! j) \<and>
              (Suc result \<le> j \<and> j < Suc result + n \<longrightarrow> b' ! j = ?b1 ! Suc j) \<and>
              (j = Suc result + n \<longrightarrow> b' ! j \<noteq> None)"
    by auto
  have "std_move T b (Suc result) (Suc n) result = (None, b')"
    using x d r b'(1) by (simp add: read_slot_def)
  moreover have "\<forall>j<length b.
              (j < result \<or> Suc result + Suc n \<le> j \<longrightarrow> b' ! j = b ! j) \<and>
              (result \<le> j \<and> j < result + Suc n \<longrightarrow> b' ! j = b ! Suc j) \<and>
              (j = result + Suc n \<longrightarrow> b' ! j \<noteq> None)"
  proof (intro allI impI)
    fix j assume j: "j < length b"
    from b'(3)[rule_format, OF j] x d
    show "(j < result \<or> Suc result + Suc n \<le> j \<longrightarrow> b' ! j = b ! j) \<and>
              (result \<le> j \<and> j < result + Suc n \<longrightarrow> b' ! j = b ! Suc j) \<and>
              (j = result + Suc n \<longrightarrow> b' ! j \<noteq> None)"
      by (cases "j = result") (auto simp: nth_list_update)
  qed
  ultimately show ?case using b'(2) by blast
qed

lemma destroy_n_one:
  "destroy_n st b f 1 = (b[f := None], [Destructor st f (is_live b f)])"
  by simp

text \<open>
  Claim C7. For a vector that satisfies the invariant and \<open>k\<close> below its size, when move
  assignment of the elements after \<open>k\<close> does not throw and gives the target the value of
  the source: \<open>Erase(begin() + k)\<close> returns the cursor \<open>k\<close>, the size is one less, the elements
  below \<open>k\<close> are unchanged, the element at each \<open>i\<close> from \<open>k\<close> on is the one that was at
  \<open>i + 1\<close>, and exactly one destructor ran, on the last live slot.
\<close>

theorem Erase_shifts_left:
  assumes "Vector_inv v" "k < Size v"
    and "\<forall>x\<in>set (drop (Suc k) (elems v)). \<forall>d. \<exists>r. move_assign T d x = Inr (x, r)"
  shows "\<exists>v' evs. Erase T v k = (Inr k, v', evs) \<and> Size v' = Size v - 1 \<and>
           (\<forall>i<k. index_op v' i = index_op v i) \<and>
           (\<forall>i. k \<le> i \<and> i < Size v - 1 \<longrightarrow> index_op v' i = index_op v (i + 1)) \<and>
           Vector_inv v' \<and> evs = [Destructor data_mem (Size v - 1) True]"
proof -
  let ?b = "buffer_m (data_m v)"
  let ?s = "size_m v"
  let ?n = "?s - (k + 1)"
  have k: "k < ?s" using assms(2) by (simp add: Size_def)
  have inv: "length ?b = capacity_m (data_m v)" "?s \<le> capacity_m (data_m v)"
    "\<forall>i<?s. ?b ! i \<noteq> None" "\<forall>i. ?s \<le> i \<and> i < capacity_m (data_m v) \<longrightarrow> ?b ! i = None"
    using assms(1) by (simp_all add: Vector_inv_iff)
  have sn: "Suc k + ?n = ?s" "k + ?n = ?s - 1" using k by simp_all
  have 1: "\<forall>i. k \<le> i \<and> i < Suc k + ?n \<longrightarrow> i < length ?b \<and> ?b ! i \<noteq> None"
    using inv sn by auto
  have 2: "\<forall>i. Suc k \<le> i \<and> i < Suc k + ?n \<longrightarrow>
           (\<forall>d. \<exists>r. move_assign T d (the (?b ! i)) = Inr (the (?b ! i), r))"
  proof (intro allI impI)
    fix i d assume "Suc k \<le> i \<and> i < Suc k + ?n"
    then have i: "Suc k \<le> i" "i < ?s" using sn by simp_all
    have "i - Suc k < length (drop (Suc k) (elems v))"
      using i elems_length[OF assms(1)] by simp
    moreover have "drop (Suc k) (elems v) ! (i - Suc k) = elems v ! i"
      using i elems_length[OF assms(1)] by simp
    ultimately have "elems v ! i \<in> set (drop (Suc k) (elems v))"
      by (metis nth_mem)
    with assms(3) elems_nth(2)[OF assms(1) i(2)]
    show "\<exists>r. move_assign T d (the (?b ! i)) = Inr (the (?b ! i), r)" by simp
  qed
  from std_move_left_ok[OF 1 2]
  obtain b' where b': "std_move T ?b (Suc k) ?n k = (None, b')" "length b' = length ?b"
    "\<forall>j<length ?b.
              (j < k \<or> ?s \<le> j \<longrightarrow> b' ! j = ?b ! j) \<and>
              (k \<le> j \<and> j < ?s - 1 \<longrightarrow> b' ! j = ?b ! Suc j) \<and>
              (j = ?s - 1 \<longrightarrow> b' ! j \<noteq> None)"
    unfolding sn by auto
  have sl: "?s - 1 < length ?b" using k inv by simp
  have live: "is_live b' (?s - 1)" using b'(2,3) sl by (simp add: is_live_def)
  let ?v' = "\<lparr>data_m = (data_m v)\<lparr>buffer_m := b'[?s - 1 := None]\<rparr>, size_m = ?s - 1\<rparr>"
  have res: "Erase T v k = (Inr k, ?v', [Destructor data_mem (?s - 1) True])"
    unfolding Erase_def using k b'(1) live inv(2)
    by (simp add: destroy_n_one RawMemory_at_def)
  have live': "b' ! i \<noteq> None" if "i < ?s - 1" for i
  proof (cases "i < k")
    case True
    with that b'(3)[rule_format, of i] inv(1,2,3) show ?thesis by simp
  next
    case False
    with that have "Suc i < ?s" "i < length ?b" "k \<le> i" using inv(1,2) by auto
    with that b'(3)[rule_format, of i] inv(3) show ?thesis by simp
  qed
  have dead': "b' ! i = None" if "?s \<le> i" "i < capacity_m (data_m v)" for i
    using that b'(3)[rule_format, of i] inv(1,4) by simp
  have inv': "Vector_inv ?v'"
    unfolding Vector_inv_iff
  proof (intro conjI allI impI)
    show "length (buffer_m (data_m ?v')) = capacity_m (data_m ?v')"
      using b'(2) inv(1) by simp
    show "size_m ?v' \<le> capacity_m (data_m ?v')" using inv(2) by simp
  next
    fix i assume "i < size_m ?v'"
    then show "buffer_m (data_m ?v') ! i \<noteq> None" using live'[of i] by simp
  next
    fix i assume i: "size_m ?v' \<le> i \<and> i < capacity_m (data_m ?v')"
    show "buffer_m (data_m ?v') ! i = None"
    proof (cases "i = ?s - 1")
      case True
      then show ?thesis using sl b'(2) by simp
    next
      case False
      with i have "?s \<le> i" "i < capacity_m (data_m v)" by auto
      from dead'[OF this] False show ?thesis by simp
    qed
  qed
  have rd: "index_op ?v' i = read_slot b' i" if "i < ?s - 1" for i
    using that inv(2) b'(2) inv(1) by (simp add: index_op_def RawMemory_at_def read_slot_def)
  have rd0: "index_op v i = read_slot ?b i" if "i < ?s" for i
    using that inv(2) by (simp add: index_op_def RawMemory_at_def)
  have 3: "\<forall>i<k. index_op ?v' i = index_op v i"
  proof (intro allI impI)
    fix i assume i: "i < k"
    then have "i < ?s - 1" "i < ?s" "i < length ?b" using k inv(1,2) by auto
    with rd[of i] rd0[of i] b'(2,3) i show "index_op ?v' i = index_op v i"
      by (simp add: read_slot_def)
  qed
  have 4: "\<forall>i. k \<le> i \<and> i < ?s - 1 \<longrightarrow> index_op ?v' i = index_op v (i + 1)"
  proof (intro allI impI)
    fix i assume i: "k \<le> i \<and> i < ?s - 1"
    then have "i < ?s - 1" "i + 1 < ?s" "i < length ?b" "Suc i < length ?b"
      using k inv(1,2) by auto
    with rd[of i] rd0[of "i + 1"] b'(2,3) i show "index_op ?v' i = index_op v (i + 1)"
      by (simp add: read_slot_def)
  qed
  show ?thesis unfolding Size_def using res 3 4 inv' by simp
qed

theorem Erase_shifts_left_witness:
  "Erase int_like (mk_vector [10, 20, 30, 40, 50] 5) 2 =
     (Inr 2, mk_vector [10, 20, 40, 50] 5, [Destructor data_mem 4 True]) \<and>
   (\<exists>v' evs. Erase int_like (mk_vector [10, 20, 30, 40, 50] 5) 2 = (Inr 2, v', evs) \<and>
      Size v' = 4 \<and> index_op v' 0 = Inr 10 \<and> index_op v' 1 = Inr 20 \<and>
      index_op v' 2 = Inr 40 \<and> index_op v' 3 = Inr 50 \<and> Vector_inv v')"
proof -
  let ?v = "mk_vector [10, 20, 30, 40, 50::nat] 5"
  have 1: "Vector_inv ?v" "2 < Size ?v" by code_simp+
  have 2: "\<forall>x\<in>set (drop (Suc 2) (elems ?v)). \<forall>d. \<exists>r. move_assign int_like d x = Inr (x, r)"
    by (simp add: int_like_def)
  have 3: "Size ?v - 1 = 4" "index_op ?v 0 = Inr 10" "index_op ?v 1 = Inr 20"
    "index_op ?v 3 = Inr 40" "index_op ?v 4 = Inr 50"
    by code_simp+
  have 4: "Erase int_like ?v 2 = (Inr 2, mk_vector [10, 20, 40, 50] 5, [Destructor data_mem 4 True])"
    by code_simp
  from Erase_shifts_left[OF 1 2] 
  obtain v' evs where r: "Erase int_like ?v 2 = (Inr 2, v', evs)" "Size v' = Size ?v - 1"
    "\<forall>i<2. index_op v' i = index_op ?v i"
    "\<forall>i. 2 \<le> i \<and> i < Size ?v - 1 \<longrightarrow> index_op v' i = index_op ?v (i + 1)" "Vector_inv v'"
    by blast
  from r(3) 3 have a: "index_op v' 0 = Inr 10" "index_op v' 1 = Inr 20" by simp_all
  from r(4)[rule_format, of 2] r(4)[rule_format, of 3] 3
  have b: "index_op v' 2 = Inr 40" "index_op v' 3 = Inr 50" by simp_all
  from r(1,2,5) a b 3(1) 4 show ?thesis by auto
qed

subsection \<open>The growth policy\<close>

lemma Emplace_relocate_ok:
  assumes "Vector_inv v" "relocation_ok T (elems v)" "pos < size_m v"
    and "size_m v + 1 \<le> length dst"
  shows "\<exists>src' dst'.
           Emplace_relocate T (buffer_m (data_m v)) (size_m v) pos dst = (None, src', dst', []) \<and>
           length src' = length (buffer_m (data_m v)) \<and> length dst' = length dst \<and>
           (\<forall>j<length dst. dst' ! j =
              (if j < pos then buffer_m (data_m v) ! j
               else if pos < j \<and> j \<le> size_m v then buffer_m (data_m v) ! (j - 1)
               else dst ! j))"
proof (cases "nothrow_move_constructible T \<or> \<not> copy_constructible T")
  case True
  let ?src = "buffer_m (data_m v)"
  let ?n = "size_m v"
  have b1: "0 + pos \<le> ?n" "0 + pos \<le> length dst" using assms(3,4) by simp_all
  from move_range_ok[OF assms(1,2) True b1, of ?src new_mem]
  obtain src1 dst1 where m1:
    "uninitialized_move_n T new_mem ?src 0 pos dst 0 = (None, src1, dst1, [])"
    "length src1 = length ?src" "length dst1 = length dst"
    "\<forall>j<length dst. dst1 ! j = (if j < pos then ?src ! j else dst ! j)"
    "\<forall>i<length ?src. \<not> i < pos \<longrightarrow> src1 ! i = ?src ! i"
    by auto
  have len: "?n \<le> length ?src" using assms(1) by (simp add: Vector_inv_iff)
  have b2: "pos + (?n - pos) \<le> ?n" "(pos + 1) + (?n - pos) \<le> length dst1"
    using assms(3,4) m1(3) by simp_all
  have fr: "\<forall>i. pos \<le> i \<and> i < pos + (?n - pos) \<longrightarrow> src1 ! i = ?src ! i"
    using m1(5) len assms(3) by auto
  from move_range_ok[OF assms(1,2) True b2 m1(2) fr, of new_mem]
  obtain src2 dst2 where m2:
    "uninitialized_move_n T new_mem src1 pos (?n - pos) dst1 (pos + 1) = (None, src2, dst2, [])"
    "length src2 = length src1" "length dst2 = length dst1"
    "\<forall>j<length dst1. dst2 ! j =
       (if pos + 1 \<le> j \<and> j < pos + 1 + (?n - pos) then ?src ! (pos + (j - (pos + 1)))
        else dst1 ! j)"
    by blast
  have res: "Emplace_relocate T ?src ?n pos dst = (None, src2, dst2, [])"
    unfolding Emplace_relocate_def if_P[OF True] m1(1) using m2(1) by simp
  have "\<forall>j<length dst. dst2 ! j =
              (if j < pos then ?src ! j
               else if pos < j \<and> j \<le> ?n then ?src ! (j - 1)
               else dst ! j)"
  proof (intro allI impI)
    fix j assume j: "j < length dst"
    consider (lo) "j < pos" | (eq) "j = pos" | (mid) "pos < j" "j \<le> ?n" | (hi) "?n < j"
      by linarith
    then show "dst2 ! j =
              (if j < pos then ?src ! j
               else if pos < j \<and> j \<le> ?n then ?src ! (j - 1)
               else dst ! j)"
    proof cases
      case lo
      with m2(4)[rule_format, of j] m1(4)[rule_format, of j] j m1(3) show ?thesis by simp
    next
      case eq
      with m2(4)[rule_format, of j] m1(4)[rule_format, of j] j m1(3) assms(3) show ?thesis
        by simp
    next
      case mid
      then have "pos + (j - (pos + 1)) = j - 1" "pos + 1 \<le> j \<and> j < pos + 1 + (?n - pos)"
        using assms(3) by auto
      with m2(4)[rule_format, of j] j m1(3) mid show ?thesis by simp
    next
      case hi
      then have n: "\<not> (pos + 1 \<le> j \<and> j < pos + 1 + (?n - pos))" "\<not> j < pos"
        "\<not> (pos < j \<and> j \<le> ?n)"
        using assms(3) by auto
      have "dst2 ! j = dst1 ! j"
        using m2(4)[rule_format, of j] j m1(3) unfolding if_not_P[OF n(1)] by simp
      also have "\<dots> = dst ! j"
        using m1(4)[rule_format, OF j] unfolding if_not_P[OF n(2)] .
      finally show ?thesis unfolding if_not_P[OF n(2)] if_not_P[OF n(3)] .
    qed
  qed
  with res m2(2,3) m1(2,3) show ?thesis by simp
next
  case False
  let ?src = "buffer_m (data_m v)"
  let ?n = "size_m v"
  have b1: "0 + pos \<le> ?n" "0 + pos \<le> length dst" using assms(3,4) by simp_all
  from copy_range_ok[OF assms(1,2) False b1, of new_mem]
  obtain dst1 where m1:
    "uninitialized_copy_n T new_mem ?src 0 pos dst 0 = (None, dst1, [])"
    "length dst1 = length dst"
    "\<forall>j<length dst. dst1 ! j = (if j < pos then ?src ! j else dst ! j)"
    by auto
  have b2: "pos + (?n - pos) \<le> ?n" "(pos + 1) + (?n - pos) \<le> length dst1"
    using assms(3,4) m1(2) by simp_all
  from copy_range_ok[OF assms(1,2) False b2, of new_mem]
  obtain dst2 where m2:
    "uninitialized_copy_n T new_mem ?src pos (?n - pos) dst1 (pos + 1) = (None, dst2, [])"
    "length dst2 = length dst1"
    "\<forall>j<length dst1. dst2 ! j =
       (if pos + 1 \<le> j \<and> j < pos + 1 + (?n - pos) then ?src ! (pos + (j - (pos + 1)))
        else dst1 ! j)"
    by blast
  have res: "Emplace_relocate T ?src ?n pos dst = (None, ?src, dst2, [])"
    unfolding Emplace_relocate_def if_not_P[OF False] m1(1) using m2(1) by simp
  have "\<forall>j<length dst. dst2 ! j =
              (if j < pos then ?src ! j
               else if pos < j \<and> j \<le> ?n then ?src ! (j - 1)
               else dst ! j)"
  proof (intro allI impI)
    fix j assume j: "j < length dst"
    consider (lo) "j < pos" | (eq) "j = pos" | (mid) "pos < j" "j \<le> ?n" | (hi) "?n < j"
      by linarith
    then show "dst2 ! j =
              (if j < pos then ?src ! j
               else if pos < j \<and> j \<le> ?n then ?src ! (j - 1)
               else dst ! j)"
    proof cases
      case lo
      with m2(3)[rule_format, of j] m1(3)[rule_format, of j] j m1(2) show ?thesis by simp
    next
      case eq
      with m2(3)[rule_format, of j] m1(3)[rule_format, of j] j m1(2) assms(3) show ?thesis
        by simp
    next
      case mid
      then have "pos + (j - (pos + 1)) = j - 1" "pos + 1 \<le> j \<and> j < pos + 1 + (?n - pos)"
        using assms(3) by auto
      with m2(3)[rule_format, of j] j m1(2) mid show ?thesis by simp
    next
      case hi
      then have n: "\<not> (pos + 1 \<le> j \<and> j < pos + 1 + (?n - pos))" "\<not> j < pos"
        "\<not> (pos < j \<and> j \<le> ?n)"
        using assms(3) by auto
      have "dst2 ! j = dst1 ! j"
        using m2(3)[rule_format, of j] j m1(2) unfolding if_not_P[OF n(1)] by simp
      also have "\<dots> = dst ! j"
        using m1(3)[rule_format, OF j] unfolding if_not_P[OF n(2)] .
      finally show ?thesis unfolding if_not_P[OF n(2)] if_not_P[OF n(3)] .
    qed
  qed
  with res m2(2) m1(2) show ?thesis by simp
qed

lemma reallocates_append: "reallocates (xs @ ys) \<longleftrightarrow> reallocates xs \<or> reallocates ys"
  by (simp add: reallocates_def list_ex_iff) blast

lemma reallocates_Allocate_trace: "reallocates (Allocate_trace n) \<longleftrightarrow> n \<noteq> 0"
  by (simp add: reallocates_def Allocate_trace_def)

lemma destroy_n_no_new: "\<not> reallocates (snd (destroy_n st b f n))"
  by (simp add: destroy_n_events reallocates_def list_ex_iff)

lemma Reserve_success:
  assumes "Reserve T v c = (Inr u, v', evs)"
  shows "(c \<le> capacity_m (data_m v) \<and> v' = v \<and> evs = []) \<or>
         (capacity_m (data_m v) < c \<and> capacity_m (data_m v') = c \<and> size_m v' = size_m v \<and>
          reallocates evs)"
proof (cases "c \<le> capacity_m (data_m v)")
  case True
  with assms show ?thesis by (simp add: Reserve_def)
next
  case False
  then have c0: "c \<noteq> 0" by simp
  show ?thesis
  proof (cases "RawMemory_new T c")
    case (Inl e)
    with False assms show ?thesis by (simp add: Reserve_def)
  next
    case (Inr new_data)
    then have cap: "capacity_m new_data = c"
      by (auto simp: RawMemory_new_def split: sum.splits)
    obtain r src dst evs0 where rel:
      "(if nothrow_move_constructible T \<or> \<not> copy_constructible T
        then uninitialized_move_n T new_mem (buffer_m (data_m v)) 0 (size_m v)
               (buffer_m new_data) 0
        else (case uninitialized_copy_n T new_mem (buffer_m (data_m v)) 0 (size_m v)
                     (buffer_m new_data) 0 of
                (r, dst, evs) \<Rightarrow> (r, buffer_m (data_m v), dst, evs))) = (r, src, dst, evs0)"
      by (metis prod_cases4)
    show ?thesis
    proof (cases r)
      case None
      with False Inr rel cap assms c0 show ?thesis
        unfolding Reserve_def
        by (auto simp: RawMemory_Swap_def reallocates_append reallocates_Allocate_trace
                 split: prod.splits)
    next
      case (Some e)
      with False Inr rel assms show ?thesis
        unfolding Reserve_def by (simp split: prod.splits)
    qed
  qed
qed

lemma EmplaceBack_return_success:
  assumes "EmplaceBack_return v evs = (Inr p, v', evs')"
  shows "capacity_m (data_m v') = capacity_m (data_m v) \<and> evs' = evs"
  using assms unfolding EmplaceBack_return_def by (auto split: sum.splits)

lemma EmplaceBack_growth:
  assumes "EmplaceBack T v args = (Inr p, v', evs)"
  shows "Capacity v' = (if size_m v = Capacity v then max 1 (2 * Capacity v) else Capacity v) \<and>
         (reallocates evs \<longleftrightarrow> size_m v = Capacity v)"
proof -
  consider (empty) "size_m v = 0"
    | (full) "size_m v \<noteq> 0" "size_m v = Capacity v"
    | (spare) "size_m v \<noteq> 0" "size_m v \<noteq> Capacity v"
    by blast
  then show ?thesis
  proof cases
    case empty
    obtain r v1 evs1 where res: "Reserve T v 1 = (r, v1, evs1)" by (metis prod_cases3)
    show ?thesis
    proof (cases r)
      case (Inl e)
      with empty res assms show ?thesis by (simp add: EmplaceBack_def)
    next
      case (Inr u)
      show ?thesis
      proof (cases "args (buffer_m (data_m v1))")
        case (Inl e)
        with empty res Inr assms show ?thesis by (simp add: EmplaceBack_def)
      next
        case xb: (Inr xb)
        obtain x b where xb': "xb = (x, b)" by (metis surj_pair)
        show ?thesis
        proof (cases "construct_at b 0 x")
          case (Inl e)
          with empty res Inr xb xb' assms show ?thesis by (simp add: EmplaceBack_def)
        next
          case nb: (Inr b')
          from empty res Inr xb xb' nb assms have
            "EmplaceBack_return (v1\<lparr>data_m := (data_m v1)\<lparr>buffer_m := b'\<rparr>\<rparr>) evs1
             = (Inr p, v', evs)"
            by (simp add: EmplaceBack_def)
          from EmplaceBack_return_success[OF this]
          have 1: "capacity_m (data_m v') = capacity_m (data_m v1)" "evs = evs1" by simp_all
          from Reserve_success[OF res[unfolded Inr]] 1 empty show ?thesis
            by (auto simp: Capacity_def reallocates_def)
        qed
      qed
    qed
  next
    case full
    show ?thesis
    proof (cases "RawMemory_new T (size_m v * 2)")
      case (Inl e)
      with full assms show ?thesis by (simp add: EmplaceBack_def)
    next
      case (Inr new_data)
      then have cap: "capacity_m new_data = size_m v * 2"
        by (auto simp: RawMemory_new_def split: sum.splits)
      show ?thesis
      proof (cases "args (buffer_m (data_m v))")
        case (Inl e)
        with full Inr assms show ?thesis by (simp add: EmplaceBack_def)
      next
        case xb: (Inr xb)
        obtain x b where xb': "xb = (x, b)" by (metis surj_pair)
        show ?thesis
        proof (cases "construct_at (buffer_m new_data) (size_m v) x")
          case (Inl e)
          with full Inr xb xb' assms show ?thesis by (simp add: EmplaceBack_def)
        next
          case nb: (Inr nb)
          obtain r src dst evs0 where rel:
            "(if nothrow_move_constructible T \<or> \<not> copy_constructible T
              then uninitialized_move_n T new_mem b 0 (size_m v) nb 0
              else (case uninitialized_copy_n T new_mem b 0 (size_m v) nb 0 of
                      (r, dst, evs) \<Rightarrow> (r, b, dst, evs))) = (r, src, dst, evs0)"
            by (metis prod_cases4)
          show ?thesis
          proof (cases r)
            case None
            obtain old evs1 where d: "destroy_n data_mem src 0 (size_m v) = (old, evs1)"
              by (metis surj_pair)
            from full Inr xb xb' nb rel None d assms have
              "EmplaceBack_return
                 (v\<lparr>data_m := \<lparr>buffer_m = dst, capacity_m = capacity_m new_data\<rparr>\<rparr>)
                 (Allocate_trace (size_m v * 2) @ evs0 @ evs1
                    @ RawMemory_dtor data_mem
                        \<lparr>buffer_m = old, capacity_m = capacity_m (data_m v)\<rparr>)
               = (Inr p, v', evs)"
              unfolding EmplaceBack_def by (simp add: RawMemory_Swap_def)
            from EmplaceBack_return_success[OF this] full cap show ?thesis
              by (auto simp: Capacity_def reallocates_append reallocates_Allocate_trace)
          next
            case (Some e)
            with full Inr xb xb' nb rel assms show ?thesis
              unfolding EmplaceBack_def by (simp split: prod.splits)
          qed
        qed
      qed
    qed
  next
    case spare
    show ?thesis
    proof (cases "RawMemory_plus (data_m v) (size_m v)")
      case (Inl e)
      with spare assms show ?thesis by (simp add: EmplaceBack_def)
    next
      case (Inr q)
      show ?thesis
      proof (cases "args (buffer_m (data_m v))")
        case (Inl e)
        with spare Inr assms show ?thesis by (simp add: EmplaceBack_def)
      next
        case xb: (Inr xb)
        obtain x b where xb': "xb = (x, b)" by (metis surj_pair)
        show ?thesis
        proof (cases "construct_at b q x")
          case (Inl e)
          with spare Inr xb xb' assms show ?thesis by (simp add: EmplaceBack_def)
        next
          case nb: (Inr b')
          from spare Inr xb xb' nb assms have
            "EmplaceBack_return (v\<lparr>data_m := (data_m v)\<lparr>buffer_m := b'\<rparr>\<rparr>) []
             = (Inr p, v', evs)"
            by (simp add: EmplaceBack_def)
          from EmplaceBack_return_success[OF this] spare show ?thesis
            by (auto simp: Capacity_def reallocates_def)
        qed
      qed
    qed
  qed
qed

lemma Emplace_shift_no_new:
  "Emplace_shift T b n pos args = (r, b', evs) \<Longrightarrow> \<not> reallocates evs"
  unfolding Emplace_shift_def
  using destroy_n_no_new[of data_mem _ pos 1]
  by (auto simp: reallocates_def split: sum.splits prod.splits option.splits)

lemma Emplace_growth:
  assumes "size_m v \<le> Capacity v" "Emplace T v pos args = (Inr p, v', evs)"
  shows "Capacity v' = (if size_m v = Capacity v then max 1 (2 * Capacity v) else Capacity v) \<and>
         (reallocates evs \<longleftrightarrow> size_m v = Capacity v)"
proof -
  consider (bad) "\<not> pos \<le> size_m v"
    | (at_end) "pos = size_m v"
    | (full) "pos < size_m v" "size_m v \<ge> Capacity v"
    | (spare) "pos < size_m v" "\<not> size_m v \<ge> Capacity v"
    by linarith
  then show ?thesis
  proof cases
    case bad
    with assms show ?thesis by (simp add: Emplace_def)
  next
    case at_end
    with assms have "EmplaceBack T v args = (Inr p, v', evs)" by (simp add: Emplace_def)
    then show ?thesis by (rule EmplaceBack_growth)
  next
    case full
    then have eq: "size_m v = Capacity v" "size_m v \<noteq> 0" using assms(1) by auto
    show ?thesis
    proof (cases "RawMemory_new T (size_m v * 2)")
      case (Inl e)
      with full assms show ?thesis by (simp add: Emplace_def)
    next
      case (Inr new_data)
      then have cap: "capacity_m new_data = size_m v * 2"
        by (auto simp: RawMemory_new_def split: sum.splits)
      show ?thesis
      proof (cases "args (buffer_m (data_m v))")
        case (Inl e)
        with full Inr assms show ?thesis by (simp add: Emplace_def)
      next
        case xb: (Inr xb)
        obtain x b where xb': "xb = (x, b)" by (metis surj_pair)
        show ?thesis
        proof (cases "construct_at (buffer_m new_data) pos x")
          case (Inl e)
          with full Inr xb xb' assms show ?thesis by (simp add: Emplace_def)
        next
          case nb: (Inr nb)
          obtain r src dst evs0 where rel:
            "Emplace_relocate T b (size_m v) pos nb = (r, src, dst, evs0)"
            by (metis prod_cases4)
          show ?thesis
          proof (cases r)
            case None
            with full Inr xb xb' nb rel cap assms eq show ?thesis
              unfolding Emplace_def
              by (auto simp: RawMemory_Swap_def Capacity_def reallocates_append
                       reallocates_Allocate_trace split: prod.splits)
          next
            case (Some e)
            with full Inr xb xb' nb rel assms show ?thesis
              unfolding Emplace_def by (simp split: prod.splits)
          qed
        qed
      qed
    qed
  next
    case spare
    obtain r b evs0 where sh:
      "Emplace_shift T (buffer_m (data_m v)) (size_m v) pos args = (r, b, evs0)"
      by (metis prod_cases3)
    from Emplace_shift_no_new[OF sh] sh spare assms show ?thesis
      unfolding Emplace_def by (cases r) (auto simp: Capacity_def split: prod.splits)
  qed
qed

lemma Emplace_full_inserts:
  assumes "Vector_inv v" "pos < size_m v" "size_m v = Capacity v"
    and "relocation_ok T (elems v)" "Allocate_ok T (2 * Capacity v)"
    and "args (buffer_m (data_m v)) = Inr (x, buffer_m (data_m v))"
  shows "\<exists>v' evs. Emplace T v pos args = (Inr pos, v', evs) \<and> Vector_inv v' \<and>
           size_m v' = Suc (size_m v) \<and>
           elems v' = take pos (elems v) @ x # drop pos (elems v)"
proof -
  let ?src = "buffer_m (data_m v)"
  let ?n = "size_m v"
  have n0: "0 < ?n" using assms(2) by simp
  have cap: "capacity_m (data_m v) = ?n" using assms(3) by (simp add: Capacity_def)
  have len: "length ?src = ?n" using assms(1) cap by (simp add: Vector_inv_iff)
  have "Allocate_ok T (?n * 2)" using assms(3,5) by (simp add: mult.commute)
  with RawMemory_new_obtain[of "?n * 2" T]
  obtain new_data where new: "RawMemory_new T (?n * 2) = Inr new_data"
    "buffer_m new_data = replicate (?n * 2) None" "capacity_m new_data = ?n * 2"
    by blast
  let ?dst = "(replicate (?n * 2) None)[pos := Some x]"
  have ca: "construct_at (buffer_m new_data) pos x = Inr ((buffer_m new_data)[pos := Some x])"
    using new(2) assms(2) by (simp add: construct_at_def)
  have "?n + 1 \<le> length ((buffer_m new_data)[pos := Some x])" using new(2) n0 by simp
  from Emplace_relocate_ok[OF assms(1,4,2) this]
  obtain src' dst' where d:
    "Emplace_relocate T ?src ?n pos ((buffer_m new_data)[pos := Some x]) = (None, src', dst', [])"
    "length dst' = ?n * 2"
    "\<forall>j<?n * 2. dst' ! j =
       (if j < pos then ?src ! j
        else if pos < j \<and> j \<le> ?n then ?src ! (j - 1)
        else ?dst ! j)"
    unfolding new(2) by auto
  obtain old evs' where o: "destroy_n data_mem src' 0 ?n = (old, evs')" by (metis surj_pair)
  let ?v' = "\<lparr>data_m = \<lparr>buffer_m = dst', capacity_m = ?n * 2\<rparr>, size_m = Suc ?n\<rparr>"
  have res: "Emplace T v pos args = (Inr pos, ?v',
               Allocate_trace (?n * 2) @ evs' @ RawMemory_dtor data_mem
                 \<lparr>buffer_m = old, capacity_m = capacity_m (data_m v)\<rparr>)"
  proof -
    have fc: "Capacity v = size_m v" using assms(3) by simp
    have c: "\<not> \<not> pos \<le> ?n" "pos \<noteq> ?n" "Capacity v \<le> ?n" using assms(2) fc by simp_all
    show ?thesis
      unfolding Emplace_def if_not_P[OF c(1)] if_not_P[OF c(2)] if_P[OF c(3)]
      using new(1,3) d(1) o ca
      by (simp add: assms(6) RawMemory_Swap_def)
  qed
  have live: "\<forall>j<?n. ?src ! j \<noteq> None" using assms(1) by (simp add: Vector_inv_iff)
  have inv: "Vector_inv ?v'"
    unfolding Vector_inv_iff using d(2,3) n0 live assms(2) by (auto simp: nth_list_update)
  have el: "length (elems v) = ?n" using assms(1) by (rule elems_length)
  have "elems ?v' = take pos (elems v) @ x # drop pos (elems v)"
  proof (rule nth_equalityI)
    show "length (elems ?v') = length (take pos (elems v) @ x # drop pos (elems v))"
      using el d(2) assms(2) n0 by (simp add: elems_def)
  next
    fix j assume "j < length (elems ?v')"
    then have j: "j < Suc ?n" using d(2) n0 by (simp add: elems_def)
    then have j2: "j < ?n * 2" using n0 by simp
    have lhs: "elems ?v' ! j = the (dst' ! j)" using j d(2) n0 by (simp add: elems_def)
    consider (lo) "j < pos" | (eq) "j = pos" | (hi) "pos < j" by linarith
    then show "elems ?v' ! j = (take pos (elems v) @ x # drop pos (elems v)) ! j"
    proof cases
      case lo
      then have "dst' ! j = ?src ! j" using d(3) j2 by simp
      also have "\<dots> = Some (elems v ! j)" using elems_nth(2)[OF assms(1), of j] lo assms(2) by simp
      finally show ?thesis using lhs lo el assms(2) by (simp add: nth_append)
    next
      case eq
      then have "dst' ! j = Some x" using d(3) j2 by simp
      then show ?thesis using lhs eq el assms(2) by (simp add: nth_append)
    next
      case hi
      then have "dst' ! j = ?src ! (j - 1)" using d(3) j2 j by simp
      also have "\<dots> = Some (elems v ! (j - 1))"
        using elems_nth(2)[OF assms(1), of "j - 1"] hi j by simp
      finally have "elems ?v' ! j = elems v ! (j - 1)" using lhs by simp
      moreover have "(take pos (elems v) @ x # drop pos (elems v)) ! j = elems v ! (j - 1)"
      proof -
        have lt: "length (take pos (elems v)) = pos" using el assms(2) by simp
        obtain k where k: "j = Suc (pos + k)" using hi by (metis less_iff_Suc_add)
        have "pos + k < length (elems v)" using j k el by simp
        then show ?thesis unfolding k by (simp add: nth_append lt)
      qed
      ultimately show ?thesis by simp
    qed
  qed
  with res inv show ?thesis by simp
qed

lemma std_move_backward_ok:
  assumes "\<forall>d s. \<exists>p. move_assign T d s = Inr p"
    and "n \<le> last'" "last' \<le> d_last" "d_last \<le> length b"
    and "\<forall>i. last' - n \<le> i \<and> i < d_last \<longrightarrow> b ! i \<noteq> None"
  shows "\<exists>b'. std_move_backward T b n last' d_last = (None, b') \<and> length b' = length b \<and>
           (\<forall>i<length b. (b' ! i = None) = (b ! i = None))"
  using assms(2-)
proof (induction n arbitrary: b last' d_last)
  case 0
  then show ?case by simp
next
  case (Suc n)
  let ?s = "last' - 1"
  let ?t = "d_last - 1"
  have si: "last' - Suc n \<le> ?s \<and> ?s < d_last" and ti: "last' - Suc n \<le> ?t \<and> ?t < d_last"
    using Suc.prems(1,2) by auto
  have s: "?s < length b" "b ! ?s \<noteq> None" and t: "?t < length b" "b ! ?t \<noteq> None"
    using Suc.prems(1-3) Suc.prems(4)[rule_format, OF si] Suc.prems(4)[rule_format, OF ti]
    by auto
  then obtain x d where x: "b ! ?s = Some x" and d: "b ! ?t = Some d" by auto
  obtain d' r where m: "move_assign T d x = Inr (d', r)" using assms(1) by (metis surj_pair)
  let ?b = "b[?s := Some r, ?t := Some d']"
  have live: "\<forall>i<length b. (?b ! i = None) = (b ! i = None)"
    using s t by (auto simp: nth_list_update)
  have "\<forall>i. ?s - n \<le> i \<and> i < ?t \<longrightarrow> ?b ! i \<noteq> None"
  proof (intro allI impI)
    fix i assume i: "?s - n \<le> i \<and> i < ?t"
    then have "last' - Suc n \<le> i \<and> i < d_last" by auto
    then have "b ! i \<noteq> None" using Suc.prems(4) by blast
    moreover have "i < length b" using i t by simp
    ultimately show "?b ! i \<noteq> None" using live by simp
  qed
  moreover have "n \<le> ?s" "?s \<le> ?t" "?t \<le> length ?b" using Suc.prems(1-3) by auto
  ultimately have "\<exists>b'. std_move_backward T ?b n ?s ?t = (None, b') \<and> length b' = length ?b \<and>
           (\<forall>i<length ?b. (b' ! i = None) = (?b ! i = None))"
    using Suc.IH[of ?s ?t ?b] by blast
  then obtain b' where b': "std_move_backward T ?b n ?s ?t = (None, b')" "length b' = length b"
    "\<forall>i<length b. (b' ! i = None) = (?b ! i = None)"
    by auto
  have "std_move_backward T b (Suc n) last' d_last = (None, b')"
    using s t x d m b'(1) by (simp add: read_slot_def)
  with b'(2,3) live show ?case by simp
qed

lemma Emplace_spare_returns:
  assumes "Vector_inv v" "pos < size_m v" "size_m v \<noteq> Capacity v"
    and "\<exists>p. move_ctor T (elems v ! (size_m v - 1)) = Inr p"
    and "\<forall>d s. \<exists>p. move_assign T d s = Inr p"
    and "\<forall>b. args b = Inr (x, b)"
  shows "\<exists>v' evs. Emplace T v pos args = (Inr pos, v', evs) \<and> Vector_inv v' \<and>
           size_m v' = Suc (size_m v)"
proof -
  let ?b = "buffer_m (data_m v)"
  let ?n = "size_m v"
  have lt: "?n < capacity_m (data_m v)" "length ?b = capacity_m (data_m v)"
    using assms(1,3) by (simp_all add: Vector_inv_iff Capacity_def)
  have live: "\<forall>j<?n. ?b ! j \<noteq> None"
    and raw: "\<forall>j. ?n \<le> j \<and> j < capacity_m (data_m v) \<longrightarrow> ?b ! j = None"
    using assms(1) by (simp_all add: Vector_inv_iff)
  have n1: "?n - 1 < ?n" using assms(2) by simp
  from elems_nth[OF assms(1) n1]
  have rd: "read_slot ?b (?n - 1) = Inr (elems v ! (?n - 1))" by (simp add: read_slot_def)
  from assms(4) obtain y r where mv: "move_ctor T (elems v ! (?n - 1)) = Inr (y, r)"
    by (metis surj_pair)
  let ?b1 = "?b[?n - 1 := Some r, ?n := Some y]"
  have ca: "construct_at (?b[?n - 1 := Some r]) ?n y = Inr ?b1"
    using lt by (simp add: construct_at_def)
  have l1: "\<forall>i. ?n - (?n - pos) \<le> i \<and> i < ?n + 1 \<longrightarrow> ?b1 ! i \<noteq> None"
    using live lt by (auto simp: nth_list_update)
  have "\<exists>b'. std_move_backward T ?b1 (?n - pos) ?n (?n + 1) = (None, b') \<and>
          length b' = length ?b1 \<and> (\<forall>i<length ?b1. (b' ! i = None) = (?b1 ! i = None))"
    by (rule std_move_backward_ok[OF assms(5) _ _ _ l1]) (use lt in simp_all)
  then obtain b2 where b2: "std_move_backward T ?b1 (?n - pos) ?n (?n + 1) = (None, b2)"
    "length b2 = length ?b" "\<forall>i<length ?b. (b2 ! i = None) = (?b1 ! i = None)"
    by auto
  let ?b3 = "b2[pos := None]"
  let ?evs = "[Destructor data_mem pos (is_live b2 pos)]"
  have ds: "destroy_n data_mem b2 pos 1 = (?b3, ?evs)" by (simp add: numeral_eq_Suc)
  have c5: "construct_at ?b3 pos x = Inr (b2[pos := Some x])"
    using b2(2) lt assms(2) by (simp add: construct_at_def)
  have sh: "Emplace_shift T ?b ?n pos args = (None, b2[pos := Some x], ?evs)"
    unfolding Emplace_shift_def using rd mv ca b2(1) ds c5 assms(6) by simp
  let ?v' = "\<lparr>data_m = (data_m v)\<lparr>buffer_m := b2[pos := Some x]\<rparr>, size_m = Suc ?n\<rparr>"
  have c: "\<not> \<not> pos \<le> ?n" "pos \<noteq> ?n" "\<not> Capacity v \<le> ?n"
    using assms(2) lt by (simp_all add: Capacity_def)
  have res: "Emplace T v pos args = (Inr pos, ?v', ?evs)"
    unfolding Emplace_def if_not_P[OF c(1)] if_not_P[OF c(2)] if_not_P[OF c(3)] sh by simp
  have lv1: "(?b1 ! i = None) = (?n < i)" if "i < length ?b" for i
  proof (cases "i < ?n")
    case True
    with live lt that show ?thesis by (auto simp: nth_list_update)
  next
    case False
    with raw lt that show ?thesis by (auto simp: nth_list_update)
  qed
  have lv2: "(b2 ! i = None) = (?n < i)" if "i < length ?b" for i
    using b2(3)[rule_format, OF that] lv1[OF that] by simp
  have lv3: "b2 ! i \<noteq> None" if "i \<le> ?n" for i using lv2[of i] that lt by simp
  have lv4: "b2 ! i = None" if "?n < i" "i < capacity_m (data_m v)" for i
    using lv2[of i] that lt by simp
  have inv: "Vector_inv ?v'"
    unfolding Vector_inv_iff using b2(2) lt assms(2) lv3 lv4
    by (simp add: nth_list_update)
  show ?thesis using res inv by simp
qed

text \<open>
  Claim C6. For a vector that satisfies the invariant:
  \<^item> a call of \<open>EmplaceBack\<close>, of either \<open>PushBack\<close> or of \<open>Emplace\<close> that returns has
    reallocated exactly when size and capacity were equal, and the capacity afterwards is
    then \<open>max(1, 2 * capacity)\<close>, and the old capacity otherwise (the first four parts);
  \<^item> the calls do return, with the size one more, the capacity as above and an
    \<open>operator new\<close> in the trace exactly when the vector was full (the next four parts):
    when the constructor of the new element does not throw and, for a full vector, the
    elements relocate without throwing and the allocation of \<open>max(1, 2 * capacity)\<close>
    objects succeeds. \<open>Emplace\<close> below the end of a vector with spare capacity shifts the
    tail in place; there the move construction of the last element and the move
    assignments must not throw.

  Three pushes into a default-constructed vector of a trivially copyable type see the
  capacities 1, 2, 4 and leave the values 1, 2, 3.
\<close>

theorem growth_policy:
  assumes "Vector_inv v"
  shows "(EmplaceBack T v args = (Inr p, v', evs) \<longrightarrow>
            Capacity v' = (if Size v = Capacity v then max 1 (2 * Capacity v) else Capacity v) \<and>
            (reallocates evs \<longleftrightarrow> Size v = Capacity v)) \<and>
         (PushBack T v val = (Inr u, v', evs) \<longrightarrow>
            Capacity v' = (if Size v = Capacity v then max 1 (2 * Capacity v) else Capacity v) \<and>
            (reallocates evs \<longleftrightarrow> Size v = Capacity v)) \<and>
         (PushBack_rvalue T v val = (Inr u, v', evs) \<longrightarrow>
            Capacity v' = (if Size v = Capacity v then max 1 (2 * Capacity v) else Capacity v) \<and>
            (reallocates evs \<longleftrightarrow> Size v = Capacity v)) \<and>
         (Emplace T v pos args = (Inr p, v', evs) \<longrightarrow>
            Capacity v' = (if Size v = Capacity v then max 1 (2 * Capacity v) else Capacity v) \<and>
            (reallocates evs \<longleftrightarrow> Size v = Capacity v)) \<and>
         ((\<forall>b. args b = Inr (x, b)) \<and>
          (Size v = Capacity v \<longrightarrow>
             relocation_ok T (elems v) \<and> Allocate_ok T (max 1 (2 * Capacity v))) \<longrightarrow>
            (\<exists>w es. EmplaceBack T v args = (Inr (Size v), w, es) \<and> Size w = Size v + 1 \<and>
               Capacity w = (if Size v = Capacity v then max 1 (2 * Capacity v) else Capacity v) \<and>
               (reallocates es \<longleftrightarrow> Size v = Capacity v))) \<and>
         ((\<exists>y. copy_ctor T x = Inr y) \<and>
          (Size v = Capacity v \<longrightarrow>
             relocation_ok T (elems v) \<and> Allocate_ok T (max 1 (2 * Capacity v))) \<longrightarrow>
            (\<exists>w es. PushBack T v (Object x) = (Inr (), w, es) \<and> Size w = Size v + 1 \<and>
               Capacity w = (if Size v = Capacity v then max 1 (2 * Capacity v) else Capacity v) \<and>
               (reallocates es \<longleftrightarrow> Size v = Capacity v))) \<and>
         ((\<exists>q. move_ctor T x = Inr q) \<and>
          (Size v = Capacity v \<longrightarrow>
             relocation_ok T (elems v) \<and> Allocate_ok T (max 1 (2 * Capacity v))) \<longrightarrow>
            (\<exists>w es. PushBack_rvalue T v (Object x) = (Inr (), w, es) \<and> Size w = Size v + 1 \<and>
               Capacity w = (if Size v = Capacity v then max 1 (2 * Capacity v) else Capacity v) \<and>
               (reallocates es \<longleftrightarrow> Size v = Capacity v))) \<and>
         ((\<forall>b. args b = Inr (x, b)) \<and> pos \<le> Size v \<and>
          (Size v = Capacity v \<longrightarrow>
             relocation_ok T (elems v) \<and> Allocate_ok T (max 1 (2 * Capacity v))) \<and>
          (pos < Size v \<and> Size v \<noteq> Capacity v \<longrightarrow>
             (\<exists>q. move_ctor T (elems v ! (Size v - 1)) = Inr q) \<and>
             (\<forall>d s. \<exists>q. move_assign T d s = Inr q)) \<longrightarrow>
            (\<exists>w es. Emplace T v pos args = (Inr pos, w, es) \<and> Size w = Size v + 1 \<and>
               Capacity w = (if Size v = Capacity v then max 1 (2 * Capacity v) else Capacity v) \<and>
               (reallocates es \<longleftrightarrow> Size v = Capacity v))) \<and>
         PushBack_all int_like Vector_default [1, 2, 3] = ([1, 2, 4], mk_vector [1, 2, 3] 4)"
proof -
  let ?G = "\<lambda>w es. Capacity w =
                (if size_m v = Capacity v then max 1 (2 * Capacity v) else Capacity v) \<and>
              (reallocates es \<longleftrightarrow> size_m v = Capacity v)"
  let ?full = "size_m v = Capacity v \<longrightarrow>
                 relocation_ok T (elems v) \<and> Allocate_ok T (max 1 (2 * Capacity v))"
  have sz: "size_m v \<le> Capacity v" using assms by (simp add: Vector_inv_def Capacity_def)
  have pb: "\<exists>q. EmplaceBack T v (copy_from T val) = (Inr q, v', evs)"
    if "PushBack T v val = (Inr u, v', evs)"
    using that unfolding PushBack_def
    by (cases "EmplaceBack T v (copy_from T val)";
        cases "fst (EmplaceBack T v (copy_from T val))") auto
  have pr: "\<exists>q. EmplaceBack T v (move_from T val) = (Inr q, v', evs)"
    if "PushBack_rvalue T v val = (Inr u, v', evs)"
    using that unfolding PushBack_rvalue_def
    by (cases "EmplaceBack T v (move_from T val)";
        cases "fst (EmplaceBack T v (move_from T val))") auto
  have g1: "?G v' evs" if "EmplaceBack T v args = (Inr p, v', evs)"
    using EmplaceBack_growth[OF that] .
  have g2: "?G v' evs" if "PushBack T v val = (Inr u, v', evs)"
    using pb[OF that] EmplaceBack_growth by blast
  have g3: "?G v' evs" if "PushBack_rvalue T v val = (Inr u, v', evs)"
    using pr[OF that] EmplaceBack_growth by blast
  have g4: "?G v' evs" if "Emplace T v pos args = (Inr p, v', evs)"
    using Emplace_growth[OF sz that] .
  have eb: "\<exists>w es. EmplaceBack T v a = (Inr (size_m v), w, es) \<and>
                size_m w = size_m v + 1 \<and> ?G w es"
    if a: "\<forall>b. a b = Inr (y, b)" and f: "?full" for a y
  proof -
    have h: "size_m v = Capacity v \<longrightarrow> relocation_ok T (elems v)"
      "size_m v = Capacity v \<longrightarrow> Allocate_ok T (max 1 (2 * Capacity v))"
      "\<forall>b. size_m v = 0 \<or> b = buffer_m (data_m v) \<longrightarrow> a b = Inr (y, b)"
      using f a by simp_all
    from EmplaceBack_appends[OF assms h]
    obtain w es where r: "EmplaceBack T v a = (Inr (size_m v), w, es)"
      "size_m w = Suc (size_m v)"
      by blast
    from EmplaceBack_growth[OF r(1)] r show ?thesis by simp
  qed
  have r1: "\<exists>w es. EmplaceBack T v args = (Inr (size_m v), w, es) \<and>
              size_m w = size_m v + 1 \<and> ?G w es"
    if "(\<forall>b. args b = Inr (x, b)) \<and> ?full"
    using eb[of args x] that by blast
  have r2: "\<exists>w es. PushBack T v (Object x) = (Inr (), w, es) \<and>
              size_m w = size_m v + 1 \<and> ?G w es"
    if h: "(\<exists>y. copy_ctor T x = Inr y) \<and> ?full"
  proof -
    from h obtain y where "copy_ctor T x = Inr y" by blast
    then have "\<forall>b. copy_from T (Object x) b = Inr (y, b)" by simp
    from eb[OF this] h
    obtain w es where "EmplaceBack T v (copy_from T (Object x)) = (Inr (size_m v), w, es)"
      "size_m w = size_m v + 1 \<and> ?G w es"
      by blast
    then show ?thesis by (simp add: PushBack_def)
  qed
  have r3: "\<exists>w es. PushBack_rvalue T v (Object x) = (Inr (), w, es) \<and>
              size_m w = size_m v + 1 \<and> ?G w es"
    if h: "(\<exists>q. move_ctor T x = Inr q) \<and> ?full"
  proof -
    from h obtain y r where "move_ctor T x = Inr (y, r)" by (metis surj_pair)
    then have "\<forall>b. move_from T (Object x) b = Inr (y, b)" by simp
    from eb[OF this] h
    obtain w es where "EmplaceBack T v (move_from T (Object x)) = (Inr (size_m v), w, es)"
      "size_m w = size_m v + 1 \<and> ?G w es"
      by blast
    then show ?thesis by (simp add: PushBack_rvalue_def)
  qed
  have r4: "\<exists>w es. Emplace T v pos args = (Inr pos, w, es) \<and>
              size_m w = size_m v + 1 \<and> ?G w es"
    if h: "(\<forall>b. args b = Inr (x, b)) \<and> pos \<le> size_m v \<and> ?full \<and>
           (pos < size_m v \<and> size_m v \<noteq> Capacity v \<longrightarrow>
              (\<exists>q. move_ctor T (elems v ! (size_m v - 1)) = Inr q) \<and>
              (\<forall>d s. \<exists>q. move_assign T d s = Inr q))"
  proof -
    have a: "\<forall>b. args b = Inr (x, b)" using h by blast
    consider (at_end) "pos = size_m v"
      | (full) "pos < size_m v" "size_m v = Capacity v"
      | (spare) "pos < size_m v" "size_m v \<noteq> Capacity v"
      using h by linarith
    then have "\<exists>w es. Emplace T v pos args = (Inr pos, w, es) \<and> size_m w = Suc (size_m v)"
    proof cases
      case at_end
      from eb[OF a] h
      obtain w es where "EmplaceBack T v args = (Inr (size_m v), w, es)"
        "size_m w = size_m v + 1"
        by blast
      with at_end show ?thesis by (simp add: Emplace_def)
    next
      case full
      then have "0 < Capacity v" by simp
      then have m: "max 1 (2 * Capacity v) = 2 * Capacity v" by simp
      from h full have "relocation_ok T (elems v)" "Allocate_ok T (max 1 (2 * Capacity v))"
        by simp_all
      then have "relocation_ok T (elems v)" "Allocate_ok T (2 * Capacity v)"
        unfolding m by simp_all
      from Emplace_full_inserts[OF assms full this, of args x] a
      show ?thesis by auto
    next
      case spare
      from h spare have "\<exists>q. move_ctor T (elems v ! (size_m v - 1)) = Inr q"
        "\<forall>d s. \<exists>q. move_assign T d s = Inr q"
        by simp_all
      from Emplace_spare_returns[OF assms spare this a]
      show ?thesis by auto
    qed
    then obtain w es where r: "Emplace T v pos args = (Inr pos, w, es)"
      "size_m w = Suc (size_m v)"
      by blast
    from Emplace_growth[OF sz r(1)] r show ?thesis by simp
  qed
  have sc: "PushBack_all int_like Vector_default [1, 2, 3] = ([1, 2, 4], mk_vector [1, 2, 3] 4)"
    by code_simp
  have c1: "EmplaceBack T v args = (Inr p, v', evs) \<longrightarrow>
            Capacity v' = (if Size v = Capacity v then max 1 (2 * Capacity v) else Capacity v) \<and>
            (reallocates evs \<longleftrightarrow> Size v = Capacity v)"
    unfolding Size_def using g1 by blast
  have c2: "PushBack T v val = (Inr u, v', evs) \<longrightarrow>
            Capacity v' = (if Size v = Capacity v then max 1 (2 * Capacity v) else Capacity v) \<and>
            (reallocates evs \<longleftrightarrow> Size v = Capacity v)"
    unfolding Size_def using g2 by blast
  have c3: "PushBack_rvalue T v val = (Inr u, v', evs) \<longrightarrow>
            Capacity v' = (if Size v = Capacity v then max 1 (2 * Capacity v) else Capacity v) \<and>
            (reallocates evs \<longleftrightarrow> Size v = Capacity v)"
    unfolding Size_def using g3 by blast
  have c4: "Emplace T v pos args = (Inr p, v', evs) \<longrightarrow>
            Capacity v' = (if Size v = Capacity v then max 1 (2 * Capacity v) else Capacity v) \<and>
            (reallocates evs \<longleftrightarrow> Size v = Capacity v)"
    unfolding Size_def using g4 by blast
  have c5: "(\<forall>b. args b = Inr (x, b)) \<and>
          (Size v = Capacity v \<longrightarrow>
             relocation_ok T (elems v) \<and> Allocate_ok T (max 1 (2 * Capacity v))) \<longrightarrow>
            (\<exists>w es. EmplaceBack T v args = (Inr (Size v), w, es) \<and> Size w = Size v + 1 \<and>
               Capacity w = (if Size v = Capacity v then max 1 (2 * Capacity v) else Capacity v) \<and>
               (reallocates es \<longleftrightarrow> Size v = Capacity v))"
    unfolding Size_def using r1 by blast
  have c6: "(\<exists>y. copy_ctor T x = Inr y) \<and>
          (Size v = Capacity v \<longrightarrow>
             relocation_ok T (elems v) \<and> Allocate_ok T (max 1 (2 * Capacity v))) \<longrightarrow>
            (\<exists>w es. PushBack T v (Object x) = (Inr (), w, es) \<and> Size w = Size v + 1 \<and>
               Capacity w = (if Size v = Capacity v then max 1 (2 * Capacity v) else Capacity v) \<and>
               (reallocates es \<longleftrightarrow> Size v = Capacity v))"
    unfolding Size_def using r2 by blast
  have c7: "(\<exists>q. move_ctor T x = Inr q) \<and>
          (Size v = Capacity v \<longrightarrow>
             relocation_ok T (elems v) \<and> Allocate_ok T (max 1 (2 * Capacity v))) \<longrightarrow>
            (\<exists>w es. PushBack_rvalue T v (Object x) = (Inr (), w, es) \<and> Size w = Size v + 1 \<and>
               Capacity w = (if Size v = Capacity v then max 1 (2 * Capacity v) else Capacity v) \<and>
               (reallocates es \<longleftrightarrow> Size v = Capacity v))"
    unfolding Size_def using r3 by blast
  have c8: "(\<forall>b. args b = Inr (x, b)) \<and> pos \<le> Size v \<and>
          (Size v = Capacity v \<longrightarrow>
             relocation_ok T (elems v) \<and> Allocate_ok T (max 1 (2 * Capacity v))) \<and>
          (pos < Size v \<and> Size v \<noteq> Capacity v \<longrightarrow>
             (\<exists>q. move_ctor T (elems v ! (Size v - 1)) = Inr q) \<and>
             (\<forall>d s. \<exists>q. move_assign T d s = Inr q)) \<longrightarrow>
            (\<exists>w es. Emplace T v pos args = (Inr pos, w, es) \<and> Size w = Size v + 1 \<and>
               Capacity w = (if Size v = Capacity v then max 1 (2 * Capacity v) else Capacity v) \<and>
               (reallocates es \<longleftrightarrow> Size v = Capacity v))"
    unfolding Size_def using r4 by blast
  show ?thesis by (intro conjI c1 c2 c3 c4 c5 c6 c7 c8 sc)
qed

text \<open>
  Instances: \<open>Emplace\<close> at the front of the full vector \<open>[1, 2, 3, 4]\<close> returns with the
  capacity 8 and the values \<open>[0, 1, 2, 3, 4]\<close>; \<open>PushBack(T&&)\<close> into a full vector of two
  owning pointers and \<open>PushBack(const T&)\<close> into a full vector of a copied type return with
  the capacity 4; \<open>Emplace\<close> with spare capacity keeps the capacity 3 and allocates nothing;
  \<open>EmplaceBack\<close> into the empty vector gives the capacity 1.
\<close>

theorem growth_policy_witness:
  "(\<exists>w es. Emplace int_like (mk_vector [1, 2, 3, 4] 4) 0 (emplace_value 0) = (Inr 0, w, es) \<and>
      Size w = 5 \<and> Capacity w = 8 \<and> reallocates es) \<and>
   (\<exists>w es. PushBack_rvalue unique_ptr_like (mk_vector [Some 4, Some 5] 2) (Object (Some 6))
              = (Inr (), w, es) \<and>
      Size w = 3 \<and> Capacity w = 4 \<and> reallocates es) \<and>
   (\<exists>w es. PushBack throwing_copy (mk_vector [4, 5] 2) (Object 6) = (Inr (), w, es) \<and>
      Size w = 3 \<and> Capacity w = 4 \<and> reallocates es) \<and>
   (\<exists>w es. Emplace int_like (mk_vector [1, 2] 3) 0 (emplace_value 3) = (Inr 0, w, es) \<and>
      Size w = 3 \<and> Capacity w = 3 \<and> \<not> reallocates es) \<and>
   (\<exists>w es. EmplaceBack int_like Vector_default (emplace_value 3) = (Inr 0, w, es) \<and>
      Size w = 1 \<and> Capacity w = 1 \<and> reallocates es) \<and>
   Emplace int_like (mk_vector [1, 2, 3, 4] 4) 0 (emplace_value 0) =
     (Inr 0, mk_vector [0, 1, 2, 3, 4] 8,
      [OperatorNew 8, Destructor data_mem 0 True, Destructor data_mem 1 True,
       Destructor data_mem 2 True, Destructor data_mem 3 True, OperatorDelete data_mem 0]) \<and>
   Capacity (mk_vector [0, 1, 2, 3, 4::nat] 8) = 8 \<and>
   reallocates [OperatorNew 8, Destructor data_mem 0 True, Destructor data_mem 1 True,
       Destructor data_mem 2 True, Destructor data_mem 3 True, OperatorDelete data_mem 0]"
proof -
  let ?f = "mk_vector [1, 2, 3, 4::nat] 4"
  let ?u = "mk_vector [Some 4, Some (5::nat)] 2"
  let ?t = "mk_vector [4, 5::nat] 2"
  let ?s = "mk_vector [1, 2::nat] 3"
  let ?e = "Vector_default :: nat Vector"
  let ?evs = "[OperatorNew 8, Destructor data_mem 0 True, Destructor data_mem 1 True,
       Destructor data_mem 2 True, Destructor data_mem 3 True, OperatorDelete data_mem 0]"
  have inv: "Vector_inv ?f" "Vector_inv ?u" "Vector_inv ?t" "Vector_inv ?s" "Vector_inv ?e"
    by code_simp+
  have sc: "Size ?f = 4" "Capacity ?f = 4" "Size ?u = 2" "Capacity ?u = 2"
    "Size ?t = 2" "Capacity ?t = 2" "Size ?s = 2" "Capacity ?s = 3"
    "Size ?e = 0" "Capacity ?e = 0"
    by code_simp+
  have rel: "relocation_ok int_like (elems ?f)" "relocation_ok unique_ptr_like (elems ?u)"
    "relocation_ok throwing_copy (elems ?t)" "relocation_ok int_like (elems ?e)"
    by code_simp+
  have al: "Allocate_ok int_like 8" "Allocate_ok unique_ptr_like 4"
    "Allocate_ok throwing_copy 4" "Allocate_ok int_like 1"
    by (simp_all add: Allocate_ok_def size_t_range_def int_like_def unique_ptr_like_def
          throwing_copy_def)
  have a0: "\<forall>b. emplace_value (0::nat) b = Inr (0, b)"
    and a3: "\<forall>b. emplace_value (3::nat) b = Inr (3, b)"
    by (simp_all add: emplace_value_def)
  have mv: "\<exists>q. move_ctor unique_ptr_like (Some (6::nat)) = Inr q"
    by (simp add: unique_ptr_like_def)
  have cp: "\<exists>y. copy_ctor throwing_copy (6::nat) = Inr y"
    by (simp add: throwing_copy_def)
  have sp: "(\<exists>q. move_ctor int_like (elems ?s ! (Size ?s - 1)) = Inr q) \<and>
            (\<forall>d s. \<exists>q. move_assign int_like d s = Inr q)"
    by (simp add: int_like_def)
  have run: "Emplace int_like ?f 0 (emplace_value 0) = (Inr 0, mk_vector [0, 1, 2, 3, 4] 8, ?evs)"
    by code_simp
  from growth_policy[OF inv(1), where T = int_like and args = "emplace_value 0" and p = 0
         and v' = "mk_vector [0, 1, 2, 3, 4] 8" and evs = ?evs and pos = 0 and x = 0] a0 rel(1) al(1) run
  have 1: "\<exists>w es. Emplace int_like ?f 0 (emplace_value 0) = (Inr 0, w, es) \<and>
      Size w = 5 \<and> Capacity w = 8 \<and> reallocates es"
    and 6: "Capacity (mk_vector [0, 1, 2, 3, 4::nat] 8) = 8 \<and> reallocates ?evs"
    unfolding sc by simp_all
  from growth_policy[OF inv(2), where T = unique_ptr_like and x = "Some 6"] mv rel(2) al(2)
  have 2: "\<exists>w es. PushBack_rvalue unique_ptr_like ?u (Object (Some 6)) = (Inr (), w, es) \<and>
      Size w = 3 \<and> Capacity w = 4 \<and> reallocates es"
    unfolding sc by simp
  from growth_policy[OF inv(3), where T = throwing_copy and x = 6] cp rel(3) al(3)
  have 3: "\<exists>w es. PushBack throwing_copy ?t (Object 6) = (Inr (), w, es) \<and>
      Size w = 3 \<and> Capacity w = 4 \<and> reallocates es"
    unfolding sc by simp
  from growth_policy[OF inv(4), where T = int_like and args = "emplace_value 3" and pos = 0 and x = 3] a3 sp
  have 4: "\<exists>w es. Emplace int_like ?s 0 (emplace_value 3) = (Inr 0, w, es) \<and>
      Size w = 3 \<and> Capacity w = 3 \<and> \<not> reallocates es"
    unfolding sc by simp
  from growth_policy[OF inv(5), where T = int_like and args = "emplace_value 3" and x = 3] a3 rel(4) al(4)
  have 5: "\<exists>w es. EmplaceBack int_like ?e (emplace_value 3) = (Inr 0, w, es) \<and>
      Size w = 1 \<and> Capacity w = 1 \<and> reallocates es"
    unfolding sc by simp
  show ?thesis using 1 2 3 4 5 6 run by blast
qed

subsection \<open>Where the exception paths of Emplace go wrong\<close>

text \<open>
  Claim C1 (no object is destroyed twice, none is left undestroyed, no destructor runs
  outside the live range) does not hold of \<open>Emplace\<close>. Two runs show it.

  Reallocating branch, copying relocation: the vector holds \<open>[1, 100]\<close> in a full buffer and
  the copy of \<open>100\<close> throws. The inner handler destroys slots \<open>0 .. dist\<close> of the new buffer
  and rethrows; the rethrown exception is caught again by the outer handler, which
  destroys slot \<open>dist\<close> a second time (the event with \<open>False\<close>).

  Branch with spare capacity: the vector holds \<open>[1, 100]\<close> in a buffer of four slots and
  the move construction of the last element into slot \<open>size_\<close> throws. The handler runs the
  destructor on slot \<open>size_\<close>, which was never constructed and lies outside \<open>[0, size_)\<close>.
\<close>

theorem Emplace_destroys_twice_and_outside:
  "Vector_inv (mk_vector [1, 100::nat] 2) \<and>
   Emplace throwing_copy (mk_vector [1, 100] 2) 0 (emplace_value 7) =
     (Inl (thrown 100), mk_vector [1, 100] 2,
      [OperatorNew 4, Destructor new_mem 1 True, Destructor new_mem 0 True,
       Destructor new_mem 0 False, OperatorDelete new_mem 0]) \<and>
   Vector_inv (mk_vector [1, 100::nat] 4) \<and>
   Emplace throwing_copy (mk_vector [1, 100] 4) 0 (emplace_value 7) =
     (Inl (thrown 100), mk_vector [1, 100] 4, [Destructor data_mem 2 False])"
  by code_simp

text \<open>
  Claim C2 (reallocating \<open>Emplace\<close> below the end, copying relocation). The vector holds
  \<open>[1, 2, 100]\<close> in a full buffer, the position is 1 and the copy of \<open>100\<close>, in the second
  range, throws. The exception is rethrown, the vector is the one it was and the new
  buffer is released with no live object; but the trace is not "the copied prefix and
  the inserted element, once each": after the copy of the second range is rolled back
  (slot 2) and the prefix and the inserted element are destroyed (slots 0 and 1), the
  destructor runs once more on the inserted element's slot 1, which is dead by then.
  When the constructor of the inserted element throws, the buffer is released and the
  vector is unchanged, as claimed.
\<close>

theorem Emplace_copy_throw_trace:
  "Vector_inv (mk_vector [1, 2, 100::nat] 3) \<and>
   Emplace throwing_copy (mk_vector [1, 2, 100] 3) 1 (emplace_value 7) =
     (Inl (thrown 100), mk_vector [1, 2, 100] 3,
      [OperatorNew 6, Destructor new_mem 2 True, Destructor new_mem 0 True,
       Destructor new_mem 1 True, Destructor new_mem 1 False, OperatorDelete new_mem 0]) \<and>
   Emplace throwing_copy (mk_vector [1, 2, 100] 3) 1 (\<lambda>b. Inl (thrown 9)) =
     (Inl (thrown 9), mk_vector [1, 2, 100] 3, [OperatorNew 6, OperatorDelete new_mem 0])"
  by code_simp

text \<open>
  Claim C3 (\<open>Emplace\<close> with spare capacity, nothing throws). For a type whose move leaves
  the source changed, the element that was last does not arrive at its new index with its
  value: slot \<open>size_\<close> is move-constructed from the last element, and then
  \<open>std::move_backward(begin() + dist, end(), end() + 1)\<close> first move-assigns the last
  element, now moved-from, onto slot \<open>size_\<close>. With two owning pointers \<open>[p1, p2]\<close> in a
  buffer of four slots, \<open>Emplace(begin(), p9)\<close> gives \<open>[p9, p1, null]\<close>: the element
  that was at index 1 is not at index 2. \<open>Emplace(begin() + 1, p9)\<close> gives
  \<open>[p1, p9, null]\<close>: the value that was at \<open>k = 1\<close> has not shifted to \<open>k + 1\<close>.
\<close>

theorem Emplace_in_place_loses_last:
  "Vector_inv (mk_vector [Some (1::nat), Some 2] 4) \<and>
   Emplace unique_ptr_like (mk_vector [Some 1, Some 2] 4) 0 (emplace_value (Some 9)) =
     (Inr 0, mk_vector [Some 9, Some 1, None] 4, [Destructor data_mem 0 True]) \<and>
   index_op (mk_vector [Some (1::nat), Some 2] 4) 1 = Inr (Some 2) \<and>
   index_op (mk_vector [Some (9::nat), Some 1, None] 4) 2 = Inr None \<and>
   Emplace unique_ptr_like (mk_vector [Some 1, Some 2] 4) 1 (emplace_value (Some 9)) =
     (Inr 1, mk_vector [Some 1, Some 9, None] 4, [Destructor data_mem 1 True])"
  by code_simp

text \<open>
  Claim C9 (the invariant holds after every operation). \<open>Insert\<close> into a vector \<open>[1, 2]\<close>
  with spare capacity, of a value whose copy constructor throws: the tail has been shifted
  and the element at \<open>dist\<close> destroyed when the constructor throws; the handler destroys
  slot \<open>size_\<close> only. Slot 0 is left without an object while \<open>size_\<close> is still 2, so the
  invariant is broken (and the value 2 is lost).
\<close>

theorem Insert_throw_breaks_invariant:
  "Vector_inv (mk_vector [1, 2::nat] 4) \<and>
   Insert throwing_copy (mk_vector [1, 2] 4) 0 (Object 100) =
     (Inl (thrown 100),
      \<lparr>data_m = \<lparr>buffer_m = [None, Some 1, None, None], capacity_m = 4\<rparr>, size_m = 2\<rparr>,
      [Destructor data_mem 0 True, Destructor data_mem 2 True]) \<and>
   \<not> Vector_inv
       \<lparr>data_m = \<lparr>buffer_m = [None, Some (1::nat), None, None], capacity_m = 4\<rparr>, size_m = 2\<rparr>"
  by code_simp

end
